theory Spec2Isabelle
  imports Complex_Main "HOL-Library.List_Lexorder"
begin

section \<open>Shahnameh text generation: the data pipeline and the sampler\<close>

text \<open>
  The repository holds two notebooks, a character-level one and a word-level one. Both
  turn a corpus into a stream of integer ids, cut the stream into windows of
  \<open>W + 1\<close> ids, split every window into an input and a target, train a recurrent model
  (a Keras model, not part of this development) and sample from it one token at a time
  through the class \<open>One_Step\<close>.

  Python strings are sequences of Unicode code points; a code point is a \<open>nat\<close> here and a
  string a list of them. A token of a lookup layer is a string: a one-character string in
  the character-level notebook, a whitespace-delimited word in the word-level one.
\<close>

type_synonym codepoint = nat
type_synonym pystr = "codepoint list"

definition py_str :: "string \<Rightarrow> pystr" where
  "py_str s = map of_char s"

text \<open>\<open>list(text)\<close>: the one-character strings of a string, in order.\<close>

definition py_list :: "pystr \<Rightarrow> pystr list" where
  "py_list text = map (\<lambda>c. [c]) text"

text \<open>\<open>''.join(parts)\<close>.\<close>

definition py_join :: "pystr list \<Rightarrow> pystr" where
  "py_join parts = concat parts"

text \<open>The errors the modelled operations raise.\<close>

datatype error = InvalidArgumentError | IndexError | ValueError

subsection \<open>Cutting the id stream into windows\<close>

text \<open>
  \<open>Dataset.batch(batch_size, drop_remainder)\<close> groups consecutive elements of a dataset
  into blocks of \<open>batch_size\<close>. The last block is shorter when the number of elements is
  not a multiple of \<open>batch_size\<close>; with \<open>drop_remainder=True\<close> it is left out. A
  \<open>batch_size\<close> of zero is refused.
\<close>

function batch_blocks :: "nat \<Rightarrow> bool \<Rightarrow> 'a list \<Rightarrow> 'a list list" where
  "batch_blocks n drop_remainder xs =
     (if n = 0 \<or> xs = [] then []
      else if length xs < n then (if drop_remainder then [] else [xs])
      else take n xs # batch_blocks n drop_remainder (drop n xs))"
  by pat_completeness auto
termination
  by (relation "measure (\<lambda>(n, d, xs). length xs)") auto

definition batch :: "nat \<Rightarrow> bool \<Rightarrow> 'a list \<Rightarrow> error + 'a list list" where
  "batch batch_size drop_remainder ds =
     (if batch_size = 0 then Inl InvalidArgumentError
      else Inr (batch_blocks batch_size drop_remainder ds))"

text \<open>
  \<open>create_input_target\<close> (character level) and \<open>split_input_target\<close> (word level) are
  the same function: \<open>ids[:-1]\<close> and \<open>ids[1:]\<close>. Both slices of an empty sequence are
  empty.
\<close>

definition create_input_target :: "'a list \<Rightarrow> 'a list \<times> 'a list" where
  "create_input_target ids = (butlast ids, tl ids)"

definition split_input_target :: "'a list \<Rightarrow> 'a list \<times> 'a list" where
  "split_input_target chunk = (butlast chunk, tl chunk)"

text \<open>\<open>Dataset.map\<close> over a dataset that was built without error.\<close>

definition dataset_map :: "('a \<Rightarrow> 'b) \<Rightarrow> error + 'a list \<Rightarrow> error + 'b list" where
  "dataset_map f ds = (case ds of Inl e \<Rightarrow> Inl e | Inr xs \<Rightarrow> Inr (map f xs))"

text \<open>
  The windows of the character-level notebook,
  \<open>seq.batch(MAX_SEQ + 1, drop_remainder=True).map(create_input_target)\<close>, and of the
  word-level one, \<open>dataset.batch(MAX_SEQ_LEN + 1, drop_remainder=True).map(split_input_target)\<close>.
  The notebooks fix \<open>MAX_SEQ = 100\<close> and \<open>MAX_SEQ_LEN = 10\<close>; the window length is a
  parameter here.
\<close>

definition char_windows :: "nat \<Rightarrow> 'a list \<Rightarrow> error + ('a list \<times> 'a list) list" where
  "char_windows MAX_SEQ text_to_ids =
     dataset_map create_input_target (batch (MAX_SEQ + 1) True text_to_ids)"

definition word_windows :: "nat \<Rightarrow> 'a list \<Rightarrow> error + ('a list \<times> 'a list) list" where
  "word_windows MAX_SEQ_LEN ids =
     dataset_map split_input_target (batch (MAX_SEQ_LEN + 1) True ids)"

text \<open>
  The training batches of the character-level notebook:
  \<open>dataset.cache().batch(BATCH_SIZE, drop_remainder=True).prefetch(AUTOTUNE)\<close>. Caching and
  prefetching do not change the elements. A batch of windows is the pair of the stacked
  inputs and the stacked targets.
\<close>

definition stack :: "('a list \<times> 'a list) list \<Rightarrow> 'a list list \<times> 'a list list" where
  "stack ws = (map fst ws, map snd ws)"

definition char_dataset ::
  "nat \<Rightarrow> nat \<Rightarrow> 'a list \<Rightarrow> error + ('a list list \<times> 'a list list) list" where
  "char_dataset MAX_SEQ BATCH_SIZE text_to_ids =
     (case char_windows MAX_SEQ text_to_ids of
        Inl e \<Rightarrow> Inl e
      | Inr ws \<Rightarrow> dataset_map stack (batch BATCH_SIZE True ws))"

subsection \<open>Text preprocessing\<close>

text \<open>
  \<open>tf.strings.regex_replace(input, pattern, rewrite)\<close> for a pattern that matches one
  literal string, which is all the notebooks use (the character U+200C, \<open>r'\|'\<close>, \<open>'\n'\<close> and
  \<open>'<newline>'\<close>): every occurrence of the literal is replaced, scanning from the left,
  and matches do not overlap. \<open>pattern\<close> is the literal the regular expression matches;
  the empty literal is not used and is left alone here.
\<close>

function regex_replace :: "pystr \<Rightarrow> pystr \<Rightarrow> pystr \<Rightarrow> pystr" where
  "regex_replace [] pattern rewrite = []"
| "regex_replace (c # cs) pattern rewrite =
     (if pattern \<noteq> [] \<and> take (length pattern) (c # cs) = pattern
      then rewrite @ regex_replace (drop (length pattern) (c # cs)) pattern rewrite
      else c # regex_replace cs pattern rewrite)"
  by pat_completeness auto
termination
  by (relation "measure (\<lambda>(input, pattern, rewrite). length input)") auto

text \<open>
  The character-level notebook removes the zero-width non-joiner (U+200C) from the corpus:
  \<open>stripped_text = tf.strings.regex_replace(text, ZWNJ, '')\<close>.
\<close>

definition stripped_text :: "pystr \<Rightarrow> pystr" where
  "stripped_text text = regex_replace text [8204] []"

text \<open>
  The word-level notebook's \<open>custom_standardization\<close>: remove U+200C, put spaces around
  every \<open>|\<close>, and turn every line feed into the word \<open><newline>\<close> with spaces around it.
\<close>

definition custom_standardization :: "pystr \<Rightarrow> pystr" where
  "custom_standardization text =
     (let text = regex_replace text [8204] [];
          text = regex_replace text (py_str ''|'') (py_str '' | '');
          text = regex_replace text [10] (py_str '' <newline> '')
      in text)"

subsection \<open>The character-level vocabulary and its lookup layers\<close>

text \<open>
  \<open>vocabulary = sorted(set(text))\<close>: the distinct characters of the text, each a
  one-character string, sorted as strings (lexicographically by code point).
\<close>

definition vocabulary :: "pystr \<Rightarrow> pystr list" where
  "vocabulary text = sort (remdups (py_list text))"

definition num_unique_char :: "pystr \<Rightarrow> nat" where
  "num_unique_char text = length (vocabulary text)"

text \<open>
  \<open>keras.layers.StringLookup(vocabulary=vocabulary, mask_token=None)\<close> keeps one
  out-of-vocabulary index, 0, whose token is \<open>'[UNK]'\<close>, and gives the tokens of
  \<open>vocabulary\<close> the indices from 1 on, in order. The forward layer (\<open>char_to_ids\<close>) maps
  a token of the vocabulary to its index and every other string to 0; the inverted layer
  (\<open>ids_to_char\<close>) maps an index of the vocabulary to its token and every other index to
  \<open>'[UNK]'\<close>. The layers close over the vocabulary; here it is their first argument.
  Ids are the non-negative integers the forward layer produces.

  Building the layers can fail: \<open>StringLookup\<close> below is the constructor call of the
  notebook, which makes both layers from one vocabulary. It raises \<open>ValueError\<close> for an
  empty vocabulary, for a repeated token and for a \<open>'[UNK]'\<close> that is not the first
  entry; a leading \<open>'[UNK]'\<close> is taken for the reserved token itself. Its result is the
  vocabulary the two layers are built over. \<open>get_vocabulary\<close>, \<open>char_to_ids\<close> and
  \<open>ids_to_char\<close> are the operations of layers that were built.
\<close>

definition UNK :: pystr where
  "UNK = py_str ''[UNK]''"

fun index_of :: "'a \<Rightarrow> 'a list \<Rightarrow> nat option" where
  "index_of x [] = None"
| "index_of x (y # ys) = (if x = y then Some 0 else map_option Suc (index_of x ys))"

definition StringLookup :: "pystr list \<Rightarrow> error + pystr list" where
  "StringLookup vocab =
     (if vocab = [] then Inl ValueError
      else (let tokens = (if hd vocab = UNK then tl vocab else vocab)
            in if \<not> distinct tokens \<or> UNK \<in> set tokens then Inl ValueError
               else Inr tokens))"

definition get_vocabulary :: "pystr list \<Rightarrow> pystr list" where
  "get_vocabulary vocab = UNK # vocab"

definition char_to_ids :: "pystr list \<Rightarrow> pystr \<Rightarrow> nat" where
  "char_to_ids vocab token = (case index_of token vocab of Some i \<Rightarrow> i + 1 | None \<Rightarrow> 0)"

definition ids_to_char :: "pystr list \<Rightarrow> nat \<Rightarrow> pystr" where
  "ids_to_char vocab i = (if 1 \<le> i \<and> i \<le> length vocab then vocab ! (i - 1) else UNK)"

text \<open>
  \<open>ids_to_text(ids)\<close> joins the tokens of the ids with no separator;
  \<open>text_to_ids = char_to_ids(list(text))\<close>.
\<close>

definition ids_to_text :: "pystr list \<Rightarrow> nat list \<Rightarrow> pystr" where
  "ids_to_text vocab ids =
     (let characters = map (ids_to_char vocab) ids;
          decoded_characters_str = py_join characters
      in decoded_characters_str)"

definition text_to_ids :: "pystr list \<Rightarrow> pystr \<Rightarrow> nat list" where
  "text_to_ids vocab text = map (char_to_ids vocab) (py_list text)"

subsection \<open>The word-level vectorizer\<close>

text \<open>
  \<open>TextVectorization(standardize=custom_standardization, output_mode="int")\<close> splits the
  standardized text at whitespace (runs of whitespace separate words, and no word is
  empty) and looks every word up. Its vocabulary is \<open>''\<close> at index 0, \<open>'[UNK]'\<close> at
  index 1 and then the words \<open>adapt\<close> kept, most frequent first. \<open>adapt\<close> is Keras' own;
  the words it kept are the parameter \<open>terms\<close>.
\<close>

definition is_space :: "codepoint \<Rightarrow> bool" where
  "is_space c = (c = 32 \<or> (9 \<le> c \<and> c \<le> 13))"

fun split_words :: "pystr \<Rightarrow> pystr \<Rightarrow> pystr list" where
  "split_words word [] = (if word = [] then [] else [word])"
| "split_words word (c # cs) =
     (if is_space c then (if word = [] then split_words [] cs else word # split_words [] cs)
      else split_words (word @ [c]) cs)"

definition whitespace_split :: "pystr \<Rightarrow> pystr list" where
  "whitespace_split text = split_words [] text"

definition word_get_vocabulary :: "pystr list \<Rightarrow> pystr list" where
  "word_get_vocabulary terms = [] # UNK # terms"

definition vocabulary_size :: "pystr list \<Rightarrow> nat" where
  "vocabulary_size terms = length (word_get_vocabulary terms)"

definition word_to_id :: "pystr list \<Rightarrow> pystr \<Rightarrow> nat" where
  "word_to_id terms word =
     (if word = [] then 0
      else case index_of word terms of Some i \<Rightarrow> i + 2 | None \<Rightarrow> 1)"

definition text_vec :: "pystr list \<Rightarrow> pystr \<Rightarrow> nat list" where
  "text_vec terms text =
     map (word_to_id terms) (whitespace_split (custom_standardization text))"

text \<open>
  The word-level \<open>ids_to_text\<close>: \<open>get_vocabulary()[idx]\<close> for every id (an index past
  the end raises \<open>IndexError\<close>), \<open><newline>\<close> replaced by a line feed in every word,
  and the words joined with one space.
\<close>

fun reduce_join :: "pystr list \<Rightarrow> pystr \<Rightarrow> pystr" where
  "reduce_join [] separator = []"
| "reduce_join [w] separator = w"
| "reduce_join (w # ws) separator = w @ separator @ reduce_join ws separator"

definition word_tokens :: "pystr list \<Rightarrow> nat list \<Rightarrow> error + pystr list" where
  "word_tokens terms ids =
     (if \<exists>idx \<in> set ids. length (word_get_vocabulary terms) \<le> idx then Inl IndexError
      else Inr (map (\<lambda>idx. word_get_vocabulary terms ! idx) ids))"

definition word_ids_to_text :: "pystr list \<Rightarrow> nat list \<Rightarrow> error + pystr" where
  "word_ids_to_text terms ids =
     (case word_tokens terms ids of
        Inl e \<Rightarrow> Inl e
      | Inr text \<Rightarrow>
          Inr (reduce_join (map (\<lambda>w. regex_replace w (py_str ''<newline>'') [10]) text)
                 (py_str '' '')))"

subsection \<open>Scores\<close>

text \<open>
  The model's scores, the temperature and the prediction mask are floating-point numbers.
  A score is a finite value, an infinity or not-a-number. Infinities, not-a-number and
  division by zero follow IEEE 754, which is what the tensor operations compute: the
  notebooks write \<open>-float('inf')\<close> themselves, and dividing a tensor by \<open>0.0\<close> raises
  nothing. A finite value is the real number it denotes and zero is the positive zero.
  The rounding of a finite result to the tensor's format (to an infinity on overflow) is
  the argument \<open>rnd\<close> of the operations; adding zero is exact. The notebooks' tensors are
  32-bit floats (the model summaries count four bytes for every parameter), whose
  rounding is \<open>binary32\<close> below.
\<close>

datatype flt = NaN | NInf | PInf | Fin real

fun fdiv :: "(real \<Rightarrow> flt) \<Rightarrow> flt \<Rightarrow> flt \<Rightarrow> flt" where
  "fdiv rnd NaN y = NaN"
| "fdiv rnd x NaN = NaN"
| "fdiv rnd PInf PInf = NaN"
| "fdiv rnd PInf NInf = NaN"
| "fdiv rnd NInf PInf = NaN"
| "fdiv rnd NInf NInf = NaN"
| "fdiv rnd PInf (Fin y) = (if 0 \<le> y then PInf else NInf)"
| "fdiv rnd NInf (Fin y) = (if 0 \<le> y then NInf else PInf)"
| "fdiv rnd (Fin x) PInf = Fin 0"
| "fdiv rnd (Fin x) NInf = Fin 0"
| "fdiv rnd (Fin x) (Fin y) =
     (if y = 0 then (if x = 0 then NaN else if 0 < x then PInf else NInf)
      else rnd (x / y))"

fun fadd :: "(real \<Rightarrow> flt) \<Rightarrow> flt \<Rightarrow> flt \<Rightarrow> flt" where
  "fadd rnd NaN y = NaN"
| "fadd rnd x NaN = NaN"
| "fadd rnd PInf NInf = NaN"
| "fadd rnd NInf PInf = NaN"
| "fadd rnd PInf y = PInf"
| "fadd rnd x PInf = PInf"
| "fadd rnd NInf y = NInf"
| "fadd rnd x NInf = NInf"
| "fadd rnd (Fin x) (Fin y) =
     (if y = 0 then Fin x else if x = 0 then Fin y else rnd (x + y))"

text \<open>
  The order of two scores, as IEEE 754 compares them: not-a-number is below and above
  nothing, and equal to nothing.
\<close>

fun fless :: "flt \<Rightarrow> flt \<Rightarrow> bool" where
  "fless NaN y = False"
| "fless x NaN = False"
| "fless NInf NInf = False"
| "fless NInf y = True"
| "fless x NInf = False"
| "fless PInf y = False"
| "fless x PInf = True"
| "fless (Fin x) (Fin y) = (x < y)"

fun fle :: "flt \<Rightarrow> flt \<Rightarrow> bool" where
  "fle NaN y = False"
| "fle x NaN = False"
| "fle NInf y = True"
| "fle x PInf = True"
| "fle PInf y = False"
| "fle x NInf = False"
| "fle (Fin x) (Fin y) = (x \<le> y)"

text \<open>
  The rounding of IEEE 754 binary32, to the nearest value of the format, ties to the even
  significand. The values of the format around \<open>x\<close> are the multiples of
  \<open>2 ^ ulp_exp x\<close>: 24 significant bits from \<open>2 ^ -126\<close> on, and the fixed spacing
  \<open>2 ^ -149\<close> below. A result of magnitude \<open>2 ^ 128\<close> or more after rounding is an
  infinity.
\<close>

definition rne :: "real \<Rightarrow> int" where
  "rne q = (let f = \<lfloor>q\<rfloor>; d = q - of_int f
            in if d < 1 / 2 then f else if 1 / 2 < d then f + 1
               else if even f then f else f + 1)"

definition pow2 :: "int \<Rightarrow> real" where
  "pow2 e = 2 powr of_int e"

definition ulp_exp :: "real \<Rightarrow> int" where
  "ulp_exp x = (if \<bar>x\<bar> < pow2 (- 126) then - 149 else \<lfloor>log 2 \<bar>x\<bar>\<rfloor> - 23)"

definition round_to_grid :: "real \<Rightarrow> real" where
  "round_to_grid x = of_int (rne (x / pow2 (ulp_exp x))) * pow2 (ulp_exp x)"

definition binary32 :: "real \<Rightarrow> flt" where
  "binary32 x =
     (let y = round_to_grid x
      in if pow2 128 \<le> \<bar>y\<bar> then (if 0 < y then PInf else NInf) else Fin y)"

text \<open>
  \<open>predicted / self.temperature\<close> divides every score by the scalar temperature;
  \<open>predicted + self.prediction_mask\<close> adds two vectors, broadcasting one of length 1,
  and fails on any other mismatch of the lengths.
\<close>

definition tensor_div :: "(real \<Rightarrow> flt) \<Rightarrow> flt list \<Rightarrow> flt \<Rightarrow> flt list" where
  "tensor_div rnd xs t = map (\<lambda>x. fdiv rnd x t) xs"

definition tensor_add :: "(real \<Rightarrow> flt) \<Rightarrow> flt list \<Rightarrow> flt list \<Rightarrow> error + flt list" where
  "tensor_add rnd xs ys =
     (if length xs = length ys then Inr (map2 (fadd rnd) xs ys)
      else if length ys = 1 then Inr (map (\<lambda>x. fadd rnd x (hd ys)) xs)
      else if length xs = 1 then Inr (map (\<lambda>y. fadd rnd (hd xs) y) ys)
      else Inl InvalidArgumentError)"

text \<open>
  \<open>tf.sparse.to_dense(tf.SparseTensor(values, indices, dense_shape))\<close> for a vector: zero
  everywhere but at the given indices, which must lie inside the shape and be as many as
  the values.
\<close>

definition sparse_to_dense :: "flt list \<Rightarrow> nat list \<Rightarrow> nat \<Rightarrow> error + flt list" where
  "sparse_to_dense values indices dense_shape =
     (if length values \<noteq> length indices \<or> (\<exists>i \<in> set indices. dense_shape \<le> i)
      then Inl InvalidArgumentError
      else Inr (fold (\<lambda>(i, v) dense. dense[i := v]) (zip indices values)
                  (replicate dense_shape (Fin 0))))"

subsection \<open>The sampler \<open>One_Step\<close>\<close>

text \<open>
  The fields \<open>__init__\<close> computes. The model and the lookup layers it also stores are
  arguments of the functions below.
\<close>

record one_step =
  temperature :: flt
  prediction_mask :: "flt list"

text \<open>
  \<open>One_Step.__init__\<close> of the character-level notebook. The id to skip is what
  \<open>char_to_ids\<close> gives for \<open>'[UNK]'\<close>; the mask is \<open>-inf\<close> there and has one entry per
  token of \<open>char_to_ids.get_vocabulary()\<close>. The temperature is stored as it comes.
\<close>

definition One_Step :: "pystr list \<Rightarrow> flt \<Rightarrow> error + one_step" where
  "One_Step vocab temp =
     (let skip_ids = [char_to_ids vocab UNK];
          sparse_mask = sparse_to_dense (replicate (length skip_ids) NInf) skip_ids
                          (length (get_vocabulary vocab))
      in case sparse_mask of
           Inl e \<Rightarrow> Inl e
         | Inr dense \<Rightarrow> Inr \<lparr>temperature = temp, prediction_mask = dense\<rparr>)"

text \<open>
  \<open>One_Step.__init__\<close> of the word-level notebook: the id to skip is
  \<open>text_vec.get_vocabulary().index('[UNK]')\<close> (\<open>ValueError\<close> when the list does not hold
  it) and the mask has \<open>text_vec.vocabulary_size()\<close> entries.
\<close>

definition word_One_Step :: "pystr list \<Rightarrow> flt \<Rightarrow> error + one_step" where
  "word_One_Step terms temp =
     (case index_of UNK (word_get_vocabulary terms) of
        None \<Rightarrow> Inl ValueError
      | Some unk \<Rightarrow>
          (let skip_ids = [unk];
               sparse_mask = sparse_to_dense (replicate (length skip_ids) NInf) skip_ids
                               (vocabulary_size terms)
           in case sparse_mask of
                Inl e \<Rightarrow> Inl e
              | Inr dense \<Rightarrow> Inr \<lparr>temperature = temp, prediction_mask = dense\<rparr>))"

text \<open>
  The scores \<open>generate_one_step\<close> hands to the sampler: the model's scores at the last
  input position, divided by the temperature, plus the mask.
\<close>

definition masked_scores :: "(real \<Rightarrow> flt) \<Rightarrow> one_step \<Rightarrow> flt list \<Rightarrow> error + flt list" where
  "masked_scores rnd self predicted =
     (let predicted = tensor_div rnd predicted (temperature self)
      in tensor_add rnd predicted (prediction_mask self))"




text \<open>
  \<open>tf.random.categorical(logits, num_samples=1)\<close>, one draw as TensorFlow's CPU kernel
  computes it. The kernel takes the largest finite score (starting from the lowest 32-bit
  float), gives every finite score the weight \<open>exp (score - largest)\<close> and every other
  score, \<open>-inf\<close>, \<open>+inf\<close> or not-a-number, no weight, and sums the weights up
  from the left. It then draws a number \<open>u\<close> uniformly from \<open>[0, 1)\<close> and returns the
  first index whose running sum exceeds \<open>u\<close> times the total, or the number of scores when
  there is none (\<open>std::upper_bound\<close>; the running sums never decrease, so its binary
  search finds the first such index). The drawn number is the argument \<open>u\<close>; the
  weights are the exact exponentials.
\<close>

definition lowest :: real where
  "lowest = - ((2 - 1 / 2 ^ 23) * 2 ^ 127)"

fun max_logit :: "real \<Rightarrow> flt list \<Rightarrow> real" where
  "max_logit m [] = m"
| "max_logit m (Fin x # logits) = max_logit (max m x) logits"
| "max_logit m (l # logits) = max_logit m logits"

fun cdf_from :: "real \<Rightarrow> real \<Rightarrow> flt list \<Rightarrow> real list" where
  "cdf_from m running_total [] = []"
| "cdf_from m running_total (Fin x # logits) =
     (running_total + exp (x - m)) # cdf_from m (running_total + exp (x - m)) logits"
| "cdf_from m running_total (l # logits) = running_total # cdf_from m running_total logits"

fun upper_bound :: "real list \<Rightarrow> real \<Rightarrow> nat" where
  "upper_bound [] to_find = 0"
| "upper_bound (c # cdf) to_find =
     (if to_find < c then 0 else Suc (upper_bound cdf to_find))"

definition categorical :: "real \<Rightarrow> flt list \<Rightarrow> nat" where
  "categorical u logits =
     (let cdf = cdf_from (max_logit lowest logits) 0 logits;
          running_total = (if cdf = [] then 0 else last cdf);
          to_find = u * running_total
      in upper_bound cdf to_find)"



section \<open>Properties\<close>

subsection \<open>Blocks\<close>

declare batch_blocks.simps [simp del]

lemma batch_blocks_zero: "batch_blocks 0 d xs = []"
  by (subst batch_blocks.simps) simp

lemma batch_blocks_short:
  "length xs < n \<Longrightarrow> batch_blocks n True xs = []"
  by (subst batch_blocks.simps) simp

lemma batch_blocks_step:
  "0 < n \<Longrightarrow> n \<le> length xs \<Longrightarrow>
   batch_blocks n d xs = take n xs # batch_blocks n d (drop n xs)"
  by (subst batch_blocks.simps) auto

lemma length_batch_blocks_drop:
  "length (batch_blocks n True xs) = length xs div n"
proof (induction n True xs rule: batch_blocks.induct)
  case (1 n xs)
  show ?case
  proof (cases "n = 0 \<or> length xs < n")
    case True
    then show ?thesis by (subst batch_blocks.simps) auto
  next
    case False
    then have n: "0 < n" "n \<le> length xs" by auto
    then have "xs \<noteq> []" by auto
    with n 1 have "length (batch_blocks n True (drop n xs)) = (length xs - n) div n"
      by simp
    with n show ?thesis
      by (simp add: batch_blocks_step le_div_geq)
  qed
qed

lemma nth_batch_blocks_drop:
  "k < length xs div n \<Longrightarrow> batch_blocks n True xs ! k = take n (drop (k * n) xs)"
proof (induction n True xs arbitrary: k rule: batch_blocks.induct)
  case (1 n xs)
  from 1(2) have n: "0 < n"
    by (cases "n = 0") auto
  from 1(2) n have len: "n \<le> length xs"
    by (metis div_less leI less_nat_zero_code)
  then have ne: "xs \<noteq> []" using n by auto
  show ?case
  proof (cases k)
    case 0
    with n len show ?thesis by (simp add: batch_blocks_step)
  next
    case (Suc j)
    with 1(2) n len have "j < length (drop n xs) div n"
      by (simp add: le_div_geq)
    with 1(1) n len ne have "batch_blocks n True (drop n xs) ! j = take n (drop (j * n) (drop n xs))"
      by simp
    with Suc n len show ?thesis
      by (simp add: batch_blocks_step add.commute)
  qed
qed

lemma concat_batch_blocks_drop:
  "concat (batch_blocks n True xs) = take (length xs div n * n) xs"
proof (induction n True xs rule: batch_blocks.induct)
  case (1 n xs)
  show ?case
  proof (cases "n = 0 \<or> length xs < n")
    case True
    then show ?thesis by (subst batch_blocks.simps) auto
  next
    case False
    then have n: "0 < n" "n \<le> length xs" by auto
    then have "xs \<noteq> []" by auto
    with n 1 have IH: "concat (batch_blocks n True (drop n xs)) =
        take ((length xs - n) div n * n) (drop n xs)"
      by simp
    have "take (length xs div n * n) xs = take n xs @ take ((length xs - n) div n * n) (drop n xs)"
    proof -
      from n have "length xs div n * n = n + (length xs - n) div n * n"
        by (simp add: le_div_geq)
      then show ?thesis
        by (metis take_add)
    qed
    with n IH show ?thesis
      by (simp add: batch_blocks_step)
  qed
qed

lemma block_bound:
  assumes "k < length xs div (Suc W)"
  shows "k * Suc W + Suc W \<le> length xs"
proof -
  from assms have "Suc k \<le> length xs div Suc W" by simp
  then have "Suc k * Suc W \<le> length xs div Suc W * Suc W"
    by (rule mult_le_mono1)
  also have "\<dots> \<le> length xs" by (rule div_times_less_eq_dividend)
  finally show ?thesis by simp
qed

lemma butlast_block:
  "m + Suc W \<le> length xs \<Longrightarrow> butlast (take (Suc W) (drop m xs)) = take W (drop m xs)"
  by (simp add: butlast_take)

lemma tl_block:
  "tl (take (Suc W) (drop m xs)) = take W (drop (Suc m) xs)"
  by (simp add: tl_take tl_drop drop_Suc)

lemma windows_eq:
  "char_windows W xs = Inr (map create_input_target (batch_blocks (Suc W) True xs))"
  "word_windows W xs = Inr (map create_input_target (batch_blocks (Suc W) True xs))"
  by (simp_all add: char_windows_def word_windows_def dataset_map_def batch_def
      create_input_target_def split_input_target_def fun_eq_iff)

lemma window_nth:
  assumes "k < length xs div Suc W"
  shows "map create_input_target (batch_blocks (Suc W) True xs) ! k =
         (take W (drop (k * Suc W) xs), take W (drop (Suc (k * Suc W)) xs))"
  using assms block_bound[OF assms]
  by (simp add: length_batch_blocks_drop nth_batch_blocks_drop create_input_target_def
      butlast_block tl_block del: mult_Suc_right)

subsection \<open>Windows\<close>

text \<open>
  Claim C1. Both notebooks produce the same windows, one for every full block of
  \<open>W + 1\<close> ids. Window \<open>k\<close> has as input the \<open>W\<close> ids of the stream from position
  \<open>k * (W + 1)\<close> on and as target the \<open>W\<close> ids from one position later: the first
  and the last \<open>W\<close> ids of the same block. So every target id but the last is the input
  id one place to the right, and the last target id is the id that follows the last
  input id in the stream.
\<close>

theorem window_input_target_shift:
  "\<exists>ws. char_windows W stream = Inr ws \<and> word_windows W stream = Inr ws \<and>
        length ws = length stream div (W + 1) \<and>
        (\<forall>k < length ws.
           fst (ws ! k) = take W (drop (k * (W + 1)) stream) \<and>
           snd (ws ! k) = take W (drop (k * (W + 1) + 1) stream) \<and>
           length (fst (ws ! k)) = W \<and> length (snd (ws ! k)) = W \<and>
           (\<forall>i. i + 1 < W \<longrightarrow> snd (ws ! k) ! i = fst (ws ! k) ! (i + 1)) \<and>
           (0 < W \<longrightarrow>
              fst (ws ! k) ! (W - 1) = stream ! (k * (W + 1) + (W - 1)) \<and>
              snd (ws ! k) ! (W - 1) = stream ! (k * (W + 1) + (W - 1) + 1)))"
proof -
  let ?ws = "map create_input_target (batch_blocks (Suc W) True stream)"
  have len: "length ?ws = length stream div (W + 1)"
    by (simp add: length_batch_blocks_drop)
  have cw: "char_windows W stream = Inr ?ws" and ww: "word_windows W stream = Inr ?ws"
    by (rule windows_eq)+
  have "fst (?ws ! k) = take W (drop (k * (W + 1)) stream) \<and>
        snd (?ws ! k) = take W (drop (k * (W + 1) + 1) stream) \<and>
        length (fst (?ws ! k)) = W \<and> length (snd (?ws ! k)) = W \<and>
        (\<forall>i. i + 1 < W \<longrightarrow> snd (?ws ! k) ! i = fst (?ws ! k) ! (i + 1)) \<and>
        (0 < W \<longrightarrow>
           fst (?ws ! k) ! (W - 1) = stream ! (k * (W + 1) + (W - 1)) \<and>
           snd (?ws ! k) ! (W - 1) = stream ! (k * (W + 1) + (W - 1) + 1))"
    if k: "k < length ?ws" for k
  proof -
    from k len have k': "k < length stream div Suc W" by simp
    note b = block_bound[OF k']
    have w: "?ws ! k = (take W (drop (k * Suc W) stream), take W (drop (Suc (k * Suc W)) stream))"
      by (rule window_nth[OF k'])
    show ?thesis
      using b by (simp add: w add.commute del: mult_Suc_right)
  qed
  then have "\<forall>k < length ?ws.
           fst (?ws ! k) = take W (drop (k * (W + 1)) stream) \<and>
           snd (?ws ! k) = take W (drop (k * (W + 1) + 1) stream) \<and>
           length (fst (?ws ! k)) = W \<and> length (snd (?ws ! k)) = W \<and>
           (\<forall>i. i + 1 < W \<longrightarrow> snd (?ws ! k) ! i = fst (?ws ! k) ! (i + 1)) \<and>
           (0 < W \<longrightarrow>
              fst (?ws ! k) ! (W - 1) = stream ! (k * (W + 1) + (W - 1)) \<and>
              snd (?ws ! k) ! (W - 1) = stream ! (k * (W + 1) + (W - 1) + 1))"
    by blast
  with cw ww len show ?thesis
    by (intro exI[of _ ?ws] conjI)
qed


theorem window_input_target_shift_witness:
  "\<exists>ws. char_windows 3 [6, 2, 3, 1, 6, 4, 5, 1 :: nat] = Inr ws \<and> length ws = 2 \<and>
        ws ! 1 = ([6, 4, 5], [4, 5, 1]) \<and>
        snd (ws ! 1) ! 0 = fst (ws ! 1) ! 1 \<and> snd (ws ! 1) ! 1 = fst (ws ! 1) ! 2 \<and>
        snd (ws ! 1) ! 2 = [6, 2, 3, 1, 6, 4, 5, 1] ! 7"
proof -
  let ?s = "[6, 2, 3, 1, 6, 4, 5, 1 :: nat]"
  obtain ws where cw: "char_windows 3 ?s = Inr ws"
    and len: "length ws = length ?s div (3 + 1)"
    and win: "\<forall>k < length ws.
           fst (ws ! k) = take 3 (drop (k * (3 + 1)) ?s) \<and>
           snd (ws ! k) = take 3 (drop (k * (3 + 1) + 1) ?s) \<and>
           length (fst (ws ! k)) = 3 \<and> length (snd (ws ! k)) = 3 \<and>
           (\<forall>i. i + 1 < 3 \<longrightarrow> snd (ws ! k) ! i = fst (ws ! k) ! (i + 1)) \<and>
           ((0::nat) < 3 \<longrightarrow>
              fst (ws ! k) ! (3 - 1) = ?s ! (k * (3 + 1) + (3 - 1)) \<and>
              snd (ws ! k) ! (3 - 1) = ?s ! (k * (3 + 1) + (3 - 1) + 1))"
    using window_input_target_shift[of 3 ?s] by blast
  from len have l2: "length ws = 2" by simp
  then have "(1::nat) < length ws" by simp
  with win have "fst (ws ! 1) = take 3 (drop (1 * (3 + 1)) ?s)"
    and "snd (ws ! 1) = take 3 (drop (1 * (3 + 1) + 1) ?s)"
    by blast+
  then have "fst (ws ! 1) = [6, 4, 5]" and "snd (ws ! 1) = [4, 5, 1]"
    by simp_all
  then have "ws ! 1 = ([6, 4, 5], [4, 5, 1])"
    by (simp add: prod_eq_iff)
  with cw l2 show ?thesis
    by (intro exI[of _ ws]) simp
qed

lemma length_batch_blocks_elem:
  "b \<in> set (batch_blocks n True xs) \<Longrightarrow> length b = n"
proof (induction n True xs rule: batch_blocks.induct)
  case (1 n xs)
  show ?case
  proof (cases "n = 0 \<or> length xs < n")
    case True
    with 1(2) show ?thesis
      by (auto simp: batch_blocks_zero batch_blocks_short)
  next
    case False
    then have n: "0 < n" "n \<le> length xs" by auto
    then have "xs \<noteq> []" by auto
    with n 1 show ?thesis
      by (auto simp: batch_blocks_step)
  qed
qed

lemma length_text_to_ids: "length (text_to_ids vocab text) = length text"
  by (simp add: text_to_ids_def py_list_def)

text \<open>
  Claim C8. A stream of fewer than \<open>W + 1\<close> ids has no full block: the pipeline gives
  no window and, for a positive batch size, no batch, and neither is an error. (The id
  stream of a text is as long as the text, see \<open>length_text_to_ids\<close>.)
\<close>

theorem short_stream_no_windows:
  assumes "length stream < W + 1" and "0 < BATCH_SIZE"
  shows "char_windows W stream = Inr [] \<and> word_windows W stream = Inr [] \<and>
         char_dataset W BATCH_SIZE stream = Inr []"
proof -
  from assms(1) have "batch_blocks (Suc W) True stream = []"
    by (simp add: batch_blocks_short)
  then have w: "char_windows W stream = Inr []" and w': "word_windows W stream = Inr []"
    by (simp_all add: windows_eq)
  have "batch_blocks BATCH_SIZE True ([] :: ('a list \<times> 'a list) list) = []"
    by (simp add: batch_blocks_short assms(2))
  with w w' assms(2) show ?thesis
    by (simp add: char_dataset_def batch_def dataset_map_def)
qed

theorem short_stream_no_windows_witness:
  "char_windows 3 [6, 2, 3 :: nat] = Inr [] \<and> word_windows 3 [6, 2, 3 :: nat] = Inr [] \<and>
   char_dataset 3 64 [6, 2, 3 :: nat] = Inr []"
  using short_stream_no_windows[of "[6, 2, 3 :: nat]" 3 64] by simp

lemma example_corpus_vocabulary:
  "vocabulary (stripped_text (py_str ''|ab'' @ [10] @ py_str ''|cd'' @ [10])) =
     [[10], [97], [98], [99], [100], [124]]"
  by (simp add: py_str_def vocabulary_def py_list_def stripped_text_def)

lemma example_corpus_stream:
  "text_to_ids [[10], [97], [98], [99], [100], [124]]
     (stripped_text (py_str ''|ab'' @ [10] @ py_str ''|cd'' @ [10])) = [6, 2, 3, 1, 6, 4, 5, 1]"
  by (simp add: py_str_def py_list_def stripped_text_def text_to_ids_def char_to_ids_def)

lemma example_corpus_windows:
  "char_windows 3 [6, 2, 3, 1, 6, 4, 5, 1 :: nat] =
     Inr [([6, 2, 3], [2, 3, 1]), ([6, 4, 5], [4, 5, 1])]"
  by (simp add: char_windows_def dataset_map_def batch_def batch_blocks.simps
      create_input_target_def)

text \<open>
  Claim C3. \<open>batch(W + 1, drop_remainder=True)\<close> cuts the stream into consecutive blocks
  of exactly \<open>W + 1\<close> ids that do not overlap: block \<open>k\<close> starts at position
  \<open>k * (W + 1)\<close>, there are \<open>length stream div (W + 1)\<close> blocks, and together they are
  the stream without its last \<open>length stream mod (W + 1)\<close> ids, which are dropped and not
  padded. Every window therefore has an input and a target of length \<open>W\<close>. The corpus
  \<open>"|ab\n|cd\n"\<close> with \<open>W = 3\<close> gives the eight tokens \<open>| a b \n | c d \n\<close> and two
  windows, the first with input \<open>"|ab"\<close> and target \<open>"ab\n"\<close>.
\<close>

theorem blocks_exact_remainder_dropped:
  "(\<exists>blocks ws.
      batch (W + 1) True stream = Inr blocks \<and>
      length blocks = length stream div (W + 1) \<and>
      (\<forall>k < length blocks. blocks ! k = take (W + 1) (drop (k * (W + 1)) stream)) \<and>
      (\<forall>b \<in> set blocks. length b = W + 1) \<and>
      concat blocks = take (length stream div (W + 1) * (W + 1)) stream \<and>
      char_windows W stream = Inr ws \<and> word_windows W stream = Inr ws \<and>
      ws = map create_input_target blocks \<and>
      (\<forall>w \<in> set ws. length (fst w) = W \<and> length (snd w) = W)) \<and>
   (let text = stripped_text (py_str ''|ab'' @ [10] @ py_str ''|cd'' @ [10]);
        vocab = vocabulary text
    in map (ids_to_char vocab) (text_to_ids vocab text) =
         [py_str ''|'', py_str ''a'', py_str ''b'', [10],
          py_str ''|'', py_str ''c'', py_str ''d'', [10]] \<and>
       (\<exists>w1 w2. char_windows 3 (text_to_ids vocab text) = Inr [w1, w2] \<and>
          ids_to_text vocab (fst w1) = py_str ''|ab'' \<and>
          ids_to_text vocab (snd w1) = py_str ''ab'' @ [10]))"
proof
  let ?bs = "batch_blocks (Suc W) True stream"
  let ?ws = "map create_input_target ?bs"
  have 1: "batch (W + 1) True stream = Inr ?bs"
    by (simp add: batch_def)
  have 2: "length ?bs = length stream div (W + 1)"
    by (simp add: length_batch_blocks_drop)
  have 3: "\<forall>k < length ?bs. ?bs ! k = take (W + 1) (drop (k * (W + 1)) stream)"
    by (simp add: length_batch_blocks_drop nth_batch_blocks_drop del: mult_Suc_right)
  have 4: "\<forall>b \<in> set ?bs. length b = W + 1"
    by (simp add: length_batch_blocks_elem)
  have 5: "concat ?bs = take (length stream div (W + 1) * (W + 1)) stream"
    using concat_batch_blocks_drop[of "Suc W" stream] by simp
  have 6: "char_windows W stream = Inr ?ws" "word_windows W stream = Inr ?ws"
    by (rule windows_eq)+
  have 7: "\<forall>w \<in> set ?ws. length (fst w) = W \<and> length (snd w) = W"
    using 4 by (auto simp: create_input_target_def)
  from 1 2 3 4 5 6 7 show "\<exists>blocks ws.
      batch (W + 1) True stream = Inr blocks \<and>
      length blocks = length stream div (W + 1) \<and>
      (\<forall>k < length blocks. blocks ! k = take (W + 1) (drop (k * (W + 1)) stream)) \<and>
      (\<forall>b \<in> set blocks. length b = W + 1) \<and>
      concat blocks = take (length stream div (W + 1) * (W + 1)) stream \<and>
      char_windows W stream = Inr ws \<and> word_windows W stream = Inr ws \<and>
      ws = map create_input_target blocks \<and>
      (\<forall>w \<in> set ws. length (fst w) = W \<and> length (snd w) = W)"
    by (intro exI[of _ ?bs] exI[of _ ?ws] conjI refl)
next
  show "let text = stripped_text (py_str ''|ab'' @ [10] @ py_str ''|cd'' @ [10]);
        vocab = vocabulary text
    in map (ids_to_char vocab) (text_to_ids vocab text) =
         [py_str ''|'', py_str ''a'', py_str ''b'', [10],
          py_str ''|'', py_str ''c'', py_str ''d'', [10]] \<and>
       (\<exists>w1 w2. char_windows 3 (text_to_ids vocab text) = Inr [w1, w2] \<and>
          ids_to_text vocab (fst w1) = py_str ''|ab'' \<and>
          ids_to_text vocab (snd w1) = py_str ''ab'' @ [10])"
    unfolding Let_def example_corpus_vocabulary example_corpus_stream example_corpus_windows
    by (simp add: ids_to_text_def ids_to_char_def py_join_def py_str_def)
qed

theorem blocks_exact_remainder_dropped_witness:
  "\<exists>blocks. batch 4 True [6, 2, 3, 1, 6, 4, 5, 1, 7 :: nat] = Inr blocks \<and>
      length blocks = 2 \<and> blocks ! 1 = [6, 4, 5, 1] \<and>
      concat blocks = [6, 2, 3, 1, 6, 4, 5, 1]"
proof -
  let ?s = "[6, 2, 3, 1, 6, 4, 5, 1, 7 :: nat]"
  obtain blocks where b: "batch (3 + 1) True ?s = Inr blocks"
    and len: "length blocks = length ?s div (3 + 1)"
    and nth: "\<forall>k < length blocks. blocks ! k = take (3 + 1) (drop (k * (3 + 1)) ?s)"
    and cc: "concat blocks = take (length ?s div (3 + 1) * (3 + 1)) ?s"
    using blocks_exact_remainder_dropped[of 3 ?s] by blast
  from len have l2: "length blocks = 2" by simp
  then have "(1::nat) < length blocks" by simp
  with nth have "blocks ! 1 = take (3 + 1) (drop (1 * (3 + 1)) ?s)" by blast
  then have n1: "blocks ! 1 = [6, 4, 5, 1]" by simp
  from cc have c: "concat blocks = [6, 2, 3, 1, 6, 4, 5, 1]" by simp
  from b l2 n1 c show ?thesis
    by (intro exI[of _ blocks]) simp
qed

subsection \<open>Vocabulary and lookup\<close>

lemma sorted_py_list: "sorted (py_list cs) = sorted cs"
  by (induction cs) (auto simp: py_list_def)

lemma distinct_py_list: "distinct (py_list cs) = distinct cs"
  by (simp add: py_list_def distinct_map inj_on_def)

lemma vocabulary_eq: "vocabulary text = py_list (sorted_list_of_set (set text))"
proof (rule sorted_distinct_set_unique)
  show "sorted (vocabulary text)" "distinct (vocabulary text)"
    by (simp_all add: vocabulary_def)
  show "sorted (py_list (sorted_list_of_set (set text)))"
    by (simp add: sorted_py_list)
  show "distinct (py_list (sorted_list_of_set (set text)))"
    by (simp add: distinct_py_list)
  show "set (vocabulary text) = set (py_list (sorted_list_of_set (set text)))"
    by (simp add: vocabulary_def py_list_def)
qed

lemma length_UNK: "length UNK = 5"
  by (simp add: UNK_def py_str_def)

lemma UNK_not_char: "UNK \<notin> set (py_list cs)"
  by (auto simp: py_list_def UNK_def py_str_def)

lemma index_of_None: "index_of x xs = None \<longleftrightarrow> x \<notin> set xs"
  by (induction xs) auto

lemma index_of_Some: "index_of x xs = Some i \<Longrightarrow> i < length xs \<and> xs ! i = x"
  by (induction xs arbitrary: i) (auto split: if_splits)

lemma index_of_nth_distinct: "distinct xs \<Longrightarrow> i < length xs \<Longrightarrow> index_of (xs ! i) xs = Some i"
proof (induction xs arbitrary: i)
  case Nil
  then show ?case by simp
next
  case (Cons y ys)
  then show ?case
    by (cases i) auto
qed

lemma StringLookup_built:
  "StringLookup vocab = Inr vocab \<longleftrightarrow> vocab \<noteq> [] \<and> distinct vocab \<and> UNK \<notin> set vocab"
  by (cases vocab) (auto simp: StringLookup_def Let_def)

lemma StringLookup_empty: "StringLookup [] = Inl ValueError"
  by (simp add: StringLookup_def)

lemma vocabulary_empty: "vocabulary text = [] \<longleftrightarrow> text = []"
proof -
  have "set (vocabulary text) = set (py_list text)"
    by (simp add: vocabulary_def)
  then have "vocabulary text = [] \<longleftrightarrow> py_list text = []"
    by (metis set_empty)
  then show ?thesis
    by (simp add: py_list_def)
qed

text \<open>
  Claim C6, as amended. For a text that is not empty the lookup layers are built over the
  character-level vocabulary, which is the sorted list of the distinct characters of the
  text, each as a one-character token. The layer puts \<open>'[UNK]'\<close> in front of it, at id 0,
  which no character of a text has; the characters follow with ids from 1 on. The text
  \<open>"aab"\<close> gives \<open>'[UNK]'\<close>, \<open>'a'\<close>, \<open>'b'\<close>: a vocabulary of size 3. For the empty
  text building the layers raises \<open>ValueError\<close>.
\<close>

theorem char_vocabulary_of_nonempty_text:
  "(text = [] \<longrightarrow> StringLookup (vocabulary text) = Inl ValueError) \<and>
   (text \<noteq> [] \<longrightarrow>
      StringLookup (vocabulary text) = Inr (vocabulary text) \<and>
      vocabulary text = py_list (sorted_list_of_set (set text)) \<and>
      sorted (vocabulary text) \<and> distinct (vocabulary text) \<and>
      set (vocabulary text) = set (py_list text) \<and>
      num_unique_char text = card (set text) \<and>
      length (get_vocabulary (vocabulary text)) = card (set text) + 1 \<and>
      get_vocabulary (vocabulary text) ! 0 = UNK \<and>
      tl (get_vocabulary (vocabulary text)) = vocabulary text \<and>
      UNK \<notin> set (vocabulary text) \<and>
      char_to_ids (vocabulary text) UNK = 0 \<and>
      (\<forall>i < length (vocabulary text).
          char_to_ids (vocabulary text) (vocabulary text ! i) = i + 1)) \<and>
   StringLookup (vocabulary (stripped_text (py_str ''aab''))) = Inr [py_str ''a'', py_str ''b''] \<and>
   get_vocabulary (vocabulary (stripped_text (py_str ''aab''))) = [UNK, py_str ''a'', py_str ''b''] \<and>
   length (get_vocabulary (vocabulary (stripped_text (py_str ''aab'')))) = 3"
proof -
  let ?v = "vocabulary text"
  have 0: "text = [] \<longrightarrow> StringLookup ?v = Inl ValueError"
    by (simp add: vocabulary_empty[THEN iffD2] StringLookup_empty)
  have 1: "?v = py_list (sorted_list_of_set (set text))"
    by (rule vocabulary_eq)
  have 2: "sorted ?v" "distinct ?v" "set ?v = set (py_list text)"
    by (simp_all add: vocabulary_def)
  have 3: "num_unique_char text = card (set text)"
    by (simp add: num_unique_char_def 1 py_list_def)
  then have 4: "length (get_vocabulary ?v) = card (set text) + 1"
    by (simp add: get_vocabulary_def num_unique_char_def)
  have 5: "get_vocabulary ?v ! 0 = UNK" "tl (get_vocabulary ?v) = ?v"
    by (simp_all add: get_vocabulary_def)
  have 6: "UNK \<notin> set ?v"
    by (simp add: 2 UNK_not_char)
  then have 7: "char_to_ids ?v UNK = 0"
    by (simp add: char_to_ids_def index_of_None[THEN iffD2])
  have 8: "\<forall>i < length ?v. char_to_ids ?v (?v ! i) = i + 1"
    by (simp add: char_to_ids_def index_of_nth_distinct 2)
  have 9: "text \<noteq> [] \<longrightarrow> StringLookup ?v = Inr ?v"
    using 2(2) 6 by (simp add: StringLookup_built vocabulary_empty)
  have v: "vocabulary (stripped_text (py_str ''aab'')) = [py_str ''a'', py_str ''b'']"
    by (simp add: vocabulary_def py_list_def py_str_def stripped_text_def)
  have 10: "StringLookup (vocabulary (stripped_text (py_str ''aab''))) = Inr [py_str ''a'', py_str ''b'']"
    unfolding v by (simp add: StringLookup_def UNK_def py_str_def)
  have 11: "get_vocabulary (vocabulary (stripped_text (py_str ''aab''))) = [UNK, py_str ''a'', py_str ''b'']"
    unfolding v by (simp add: get_vocabulary_def)
  then have 12: "length (get_vocabulary (vocabulary (stripped_text (py_str ''aab'')))) = 3"
    by simp
  from 1 2 3 4 5 6 7 8 9 have "text \<noteq> [] \<longrightarrow>
      StringLookup (vocabulary text) = Inr (vocabulary text) \<and>
      vocabulary text = py_list (sorted_list_of_set (set text)) \<and>
      sorted (vocabulary text) \<and> distinct (vocabulary text) \<and>
      set (vocabulary text) = set (py_list text) \<and>
      num_unique_char text = card (set text) \<and>
      length (get_vocabulary (vocabulary text)) = card (set text) + 1 \<and>
      get_vocabulary (vocabulary text) ! 0 = UNK \<and>
      tl (get_vocabulary (vocabulary text)) = vocabulary text \<and>
      UNK \<notin> set (vocabulary text) \<and>
      char_to_ids (vocabulary text) UNK = 0 \<and>
      (\<forall>i < length (vocabulary text).
          char_to_ids (vocabulary text) (vocabulary text ! i) = i + 1)"
    by (intro impI conjI) (erule (1) mp | assumption)+
  with 0 10 11 12 show ?thesis
    by (intro conjI)
qed

theorem char_vocabulary_of_nonempty_text_witness:
  "StringLookup (vocabulary []) = Inl ValueError \<and>
   StringLookup (vocabulary [98, 97, 98, 97]) = Inr [[97], [98]] \<and>
   vocabulary [98, 97, 98, 97] = [[97], [98]] \<and>
   length (get_vocabulary (vocabulary [98, 97, 98, 97])) = 3 \<and>
   char_to_ids (vocabulary [98, 97, 98, 97]) UNK = 0 \<and>
   char_to_ids (vocabulary [98, 97, 98, 97]) (vocabulary [98, 97, 98, 97] ! 1) = 2"
proof -
  note e = char_vocabulary_of_nonempty_text[of "[]", THEN conjunct1]
  note t = char_vocabulary_of_nonempty_text[of "[98, 97, 98, 97]", THEN conjunct2, THEN conjunct1]
  from e have 0: "StringLookup (vocabulary []) = Inl ValueError"
    by simp
  have ne: "[98, 97, 98, 97 :: nat] \<noteq> []"
    by simp
  note c = t[rule_format, OF ne]
  from c have v: "vocabulary [98, 97, 98, 97] = py_list (sorted_list_of_set (set [98, 97, 98, 97]))"
    by blast
  have s: "sorted_list_of_set (set [98, 97, 98, 97 :: nat]) = [97, 98]"
    by (simp only: sorted_list_of_set_sort_remdups) simp
  from v s have v': "vocabulary [98, 97, 98, 97] = [[97], [98]]"
    by (simp add: py_list_def)
  from c have b: "StringLookup (vocabulary [98, 97, 98, 97]) = Inr (vocabulary [98, 97, 98, 97])"
    by blast
  from c have u: "char_to_ids (vocabulary [98, 97, 98, 97]) UNK = 0"
    by blast
  from c have "\<forall>i < length (vocabulary [98, 97, 98, 97]).
      char_to_ids (vocabulary [98, 97, 98, 97]) (vocabulary [98, 97, 98, 97] ! i) = i + 1"
    by blast
  moreover have "1 < length (vocabulary [98, 97, 98, 97])"
    by (simp add: v')
  ultimately have "char_to_ids (vocabulary [98, 97, 98, 97]) (vocabulary [98, 97, 98, 97] ! 1) = 1 + 1"
    by blast
  with 0 b v' u show ?thesis
    by (simp add: get_vocabulary_def)
qed

text \<open>
  Claim C6 as stated, for every normalized text, fails: the empty text, and a text of
  zero-width non-joiners only, which the normalization empties, have the empty vocabulary,
  and no lookup layer is built from it: \<open>StringLookup\<close> raises \<open>ValueError\<close>, and there
  is no vocabulary with the unknown token in front.
\<close>

theorem empty_text_builds_no_lookup:
  "stripped_text [] = [] \<and> vocabulary (stripped_text []) = [] \<and>
   StringLookup (vocabulary (stripped_text [])) = Inl ValueError \<and>
   stripped_text [8204, 8204] = [] \<and>
   StringLookup (vocabulary (stripped_text [8204, 8204])) = Inl ValueError"
  by (simp add: stripped_text_def vocabulary_def py_list_def StringLookup_def)

lemma char_to_ids_le: "char_to_ids vocab token \<le> length vocab"
  by (auto simp: char_to_ids_def dest: index_of_Some split: option.splits)

lemma ids_to_char_char_to_ids:
  "token \<in> set vocab \<Longrightarrow> ids_to_char vocab (char_to_ids vocab token) = token"
  by (auto simp: char_to_ids_def ids_to_char_def index_of_None dest!: index_of_Some
      split: option.splits)

lemma char_to_ids_absent: "token \<notin> set vocab \<Longrightarrow> char_to_ids vocab token = 0"
  by (simp add: char_to_ids_def index_of_None[THEN iffD2])

lemma ids_to_char_zero: "ids_to_char vocab 0 = UNK"
  by (simp add: ids_to_char_def)

lemma concat_py_list: "concat (py_list s) = s"
  by (induction s) (simp_all add: py_list_def)

lemma split_words_nonempty: "[] \<notin> set (split_words w cs)"
  by (induction cs arbitrary: w) auto

lemma word_get_vocabulary_word_to_id:
  "t \<in> set (word_get_vocabulary terms) \<Longrightarrow> word_get_vocabulary terms ! word_to_id terms t = t"
  by (auto simp: word_get_vocabulary_def word_to_id_def index_of_None dest!: index_of_Some
      split: option.splits)

lemma word_to_id_term:
  "w \<in> set terms \<Longrightarrow> w \<noteq> [] \<Longrightarrow>
   word_to_id terms w < length (word_get_vocabulary terms) \<and>
   word_get_vocabulary terms ! word_to_id terms w = w"
  by (auto simp: word_get_vocabulary_def word_to_id_def index_of_None dest!: index_of_Some
      split: option.splits)

lemma word_tokens_text_vec:
  assumes "set ws \<subseteq> set terms" and "[] \<notin> set ws"
  shows "word_tokens terms (map (word_to_id terms) ws) = Inr ws"
proof -
  have "\<forall>w \<in> set ws. word_to_id terms w < length (word_get_vocabulary terms) \<and>
      word_get_vocabulary terms ! word_to_id terms w = w"
    using assms word_to_id_term by blast
  then have "\<not> (\<exists>idx \<in> set (map (word_to_id terms) ws). length (word_get_vocabulary terms) \<le> idx)"
    and "map (\<lambda>idx. word_get_vocabulary terms ! idx) (map (word_to_id terms) ws) = ws"
    by (auto simp: not_le map_idI)
  then show ?thesis
    by (simp add: word_tokens_def)
qed

text \<open>
  Claim C5. In both notebooks the token of the id of a token of the vocabulary is that
  token again (the reserved tokens included). For a string all of whose tokens are in the
  vocabulary, decoding the ids of the string gives back its tokens: in the character-level
  notebook \<open>ids_to_text\<close> returns the string itself; in the word-level one the words
  \<open>ids_to_text\<close> looks up are the words of the string, which it then renders by its join
  rule (\<open><newline>\<close> as a line feed, one space between words).
\<close>

theorem vocabulary_round_trip:
  "(\<forall>t \<in> set (get_vocabulary vocab). ids_to_char vocab (char_to_ids vocab t) = t) \<and>
   (set (py_list s) \<subseteq> set vocab \<longrightarrow>
      map (ids_to_char vocab) (text_to_ids vocab s) = py_list s \<and>
      ids_to_text vocab (text_to_ids vocab s) = s) \<and>
   (\<forall>t \<in> set (word_get_vocabulary terms). word_get_vocabulary terms ! word_to_id terms t = t) \<and>
   (set (whitespace_split (custom_standardization s)) \<subseteq> set terms \<longrightarrow>
      word_tokens terms (text_vec terms s) = Inr (whitespace_split (custom_standardization s)) \<and>
      word_ids_to_text terms (text_vec terms s) =
        Inr (reduce_join
               (map (\<lambda>w. regex_replace w (py_str ''<newline>'') [10])
                  (whitespace_split (custom_standardization s)))
               (py_str '' '')))"
proof (intro conjI ballI impI)
  fix t assume "t \<in> set (get_vocabulary vocab)"
  then consider "t \<in> set vocab" | "t \<notin> set vocab" "t = UNK"
    by (auto simp: get_vocabulary_def)
  then show "ids_to_char vocab (char_to_ids vocab t) = t"
  proof cases
    case 1
    then show ?thesis by (rule ids_to_char_char_to_ids)
  next
    case 2
    then show ?thesis by (simp add: char_to_ids_absent ids_to_char_zero)
  qed
next
  assume sub: "set (py_list s) \<subseteq> set vocab"
  then show m: "map (ids_to_char vocab) (text_to_ids vocab s) = py_list s"
    by (auto simp: text_to_ids_def ids_to_char_char_to_ids intro!: map_idI)
  then show "ids_to_text vocab (text_to_ids vocab s) = s"
    by (simp add: ids_to_text_def py_join_def concat_py_list)
next
  fix t assume "t \<in> set (word_get_vocabulary terms)"
  then show "word_get_vocabulary terms ! word_to_id terms t = t"
    by (rule word_get_vocabulary_word_to_id)
next
  assume sub: "set (whitespace_split (custom_standardization s)) \<subseteq> set terms"
  have ne: "[] \<notin> set (whitespace_split (custom_standardization s))"
    by (simp add: whitespace_split_def split_words_nonempty)
  from sub ne show t: "word_tokens terms (text_vec terms s) = Inr (whitespace_split (custom_standardization s))"
    by (simp add: text_vec_def word_tokens_text_vec)
  then show "word_ids_to_text terms (text_vec terms s) =
        Inr (reduce_join
               (map (\<lambda>w. regex_replace w (py_str ''<newline>'') [10])
                  (whitespace_split (custom_standardization s)))
               (py_str '' ''))"
    by (simp add: word_ids_to_text_def)
qed


theorem vocabulary_round_trip_witness:
  "ids_to_char [[97], [98]] (char_to_ids [[97], [98]] UNK) = UNK \<and>
   ids_to_char [[97], [98]] (char_to_ids [[97], [98]] [98]) = [98] \<and>
   ids_to_text [[97], [98]] (text_to_ids [[97], [98]] [98, 97, 98]) = [98, 97, 98] \<and>
   word_get_vocabulary [py_str ''|'', py_str ''<newline>'', py_str ''ab''] !
     word_to_id [py_str ''|'', py_str ''<newline>'', py_str ''ab''] UNK = UNK \<and>
   word_ids_to_text [py_str ''|'', py_str ''<newline>'', py_str ''ab'']
     (text_vec [py_str ''|'', py_str ''<newline>'', py_str ''ab''] (py_str ''|ab'' @ [10])) =
     Inr (py_str ''| ab '' @ [10])"
proof -
  let ?v = "[[97], [98]] :: pystr list"
  let ?terms = "[py_str ''|'', py_str ''<newline>'', py_str ''ab'']"
  let ?s = "py_str ''|ab'' @ [10]"
  note c = vocabulary_round_trip[of ?v "[98, 97, 98]" ?terms]
  note w = vocabulary_round_trip[of ?v ?s ?terms]
  have toks: "whitespace_split (custom_standardization ?s) =
      [py_str ''|'', py_str ''ab'', py_str ''<newline>'']"
    by (simp add: whitespace_split_def custom_standardization_def py_str_def is_space_def)
  from c have "\<forall>t \<in> set (get_vocabulary ?v). ids_to_char ?v (char_to_ids ?v t) = t"
    by blast
  then have 1: "ids_to_char ?v (char_to_ids ?v UNK) = UNK"
    and 2: "ids_to_char ?v (char_to_ids ?v [98]) = [98]"
    by (simp_all add: get_vocabulary_def)
  have "set (py_list [98, 97, 98]) \<subseteq> set ?v"
    by (simp add: py_list_def)
  with c have 3: "ids_to_text ?v (text_to_ids ?v [98, 97, 98]) = [98, 97, 98]"
    by blast
  from w have "\<forall>t \<in> set (word_get_vocabulary ?terms).
      word_get_vocabulary ?terms ! word_to_id ?terms t = t"
    by blast
  then have 4: "word_get_vocabulary ?terms ! word_to_id ?terms UNK = UNK"
    by (simp add: word_get_vocabulary_def)
  have "set (whitespace_split (custom_standardization ?s)) \<subseteq> set ?terms"
    by (simp add: toks)
  with w have "word_ids_to_text ?terms (text_vec ?terms ?s) =
        Inr (reduce_join
               (map (\<lambda>w. regex_replace w (py_str ''<newline>'') [10])
                  (whitespace_split (custom_standardization ?s)))
               (py_str '' ''))"
    by blast
  then have 5: "word_ids_to_text ?terms (text_vec ?terms ?s) = Inr (py_str ''| ab '' @ [10])"
    by (simp add: toks) (simp add: py_str_def)
  from 1 2 3 4 5 show ?thesis
    by (intro conjI)
qed

lemma length_ids_to_char_vocabulary:
  "length (ids_to_char (vocabulary text) i) =
     (if 1 \<le> i \<and> i \<le> length (vocabulary text) then 1 else 5)"
proof -
  have "length ((vocabulary text) ! j) = 1" if "j < length (vocabulary text)" for j
    using that by (simp add: vocabulary_eq py_list_def)
  then show ?thesis
    by (auto simp: ids_to_char_def length_UNK)
qed

text \<open>
  Claim C10. In the character-level notebook the id 0 decodes to the five characters
  \<open>[UNK]\<close>, so the text of the one id 0 is longer than the id sequence. With the
  vocabulary of a text, every id of a character decodes to one character and every other
  id to five: the decoded text is longer than the id sequence by four characters for each
  id that is 0 or past the vocabulary.
\<close>

theorem unknown_id_decodes_to_five_characters:
  "ids_to_char vocab 0 = py_str ''[UNK]'' \<and>
   ids_to_text vocab [0] = py_str ''[UNK]'' \<and>
   length (ids_to_text vocab [0]) = 5 \<and>
   length [0 :: nat] < length (ids_to_text vocab [0]) \<and>
   length (ids_to_text (vocabulary text) ids) =
     length ids + 4 * length (filter (\<lambda>i. i = 0 \<or> length (vocabulary text) < i) ids)"
proof -
  have 1: "ids_to_char vocab 0 = py_str ''[UNK]''"
    by (simp add: ids_to_char_zero UNK_def)
  then have 2: "ids_to_text vocab [0] = py_str ''[UNK]''"
    by (simp add: ids_to_text_def py_join_def)
  then have 3: "length (ids_to_text vocab [0]) = 5"
    by (simp add: py_str_def)
  then have 4: "length [0 :: nat] < length (ids_to_text vocab [0])"
    by simp
  have 5: "length (ids_to_text (vocabulary text) ids) =
     length ids + 4 * length (filter (\<lambda>i. i = 0 \<or> length (vocabulary text) < i) ids)"
  proof (induction ids)
    case Nil
    then show ?case by (simp add: ids_to_text_def py_join_def)
  next
    case (Cons i ids)
    then show ?case
      using length_ids_to_char_vocabulary[of "text" i]
      by (auto simp: ids_to_text_def py_join_def)
  qed
  from 1 2 3 4 5 show ?thesis
    by (intro conjI)
qed

theorem unknown_id_decodes_to_five_characters_witness:
  "ids_to_text [[97], [98]] [0] = py_str ''[UNK]'' \<and>
   length (ids_to_text (vocabulary [97, 97, 98]) [1, 0, 2, 7]) = 12"
proof -
  note t = unknown_id_decodes_to_five_characters[of "[[97], [98]]" "[97, 97, 98]" "[1, 0, 2, 7]"]
  have v: "vocabulary [97, 97, 98] = [[97], [98]]"
    by (simp add: vocabulary_def py_list_def)
  from t have "length (ids_to_text (vocabulary [97, 97, 98]) [1, 0, 2, 7]) =
     length [1, 0, 2, 7 :: nat] +
     4 * length (filter (\<lambda>i. i = 0 \<or> length (vocabulary [97, 97, 98]) < i) [1, 0, 2, 7])"
    by blast
  then have "length (ids_to_text (vocabulary [97, 97, 98]) [1, 0, 2, 7]) = 12"
    by (simp add: v)
  with t show ?thesis
    by blast
qed

subsection \<open>The sampler\<close>

lemma sparse_to_dense_single:
  "u < n \<Longrightarrow> sparse_to_dense [v] [u] n = Inr ((replicate n (Fin 0))[u := v])"
  by (simp add: sparse_to_dense_def)

lemma One_Step_eq:
  "One_Step vocab temp =
     Inr \<lparr>temperature = temp,
          prediction_mask = (replicate (length (get_vocabulary vocab)) (Fin 0))
                              [char_to_ids vocab UNK := NInf]\<rparr>"
proof -
  have "char_to_ids vocab UNK < length (get_vocabulary vocab)"
    using char_to_ids_le[of vocab UNK] by (simp add: get_vocabulary_def)
  then show ?thesis
    by (simp add: One_Step_def sparse_to_dense_single)
qed

lemma index_of_UNK_word: "index_of UNK (word_get_vocabulary terms) = Some 1"
  by (simp add: word_get_vocabulary_def UNK_def py_str_def)

lemma word_One_Step_eq:
  "word_One_Step terms temp =
     Inr \<lparr>temperature = temp,
          prediction_mask = (replicate (vocabulary_size terms) (Fin 0))[1 := NInf]\<rparr>"
proof -
  have "1 < vocabulary_size terms"
    by (simp add: vocabulary_size_def word_get_vocabulary_def)
  then show ?thesis
    by (simp add: word_One_Step_def index_of_UNK_word sparse_to_dense_single)
qed

lemma masked_scores_same_length:
  "length predicted = length (prediction_mask self) \<Longrightarrow>
   masked_scores rnd self predicted =
     Inr (map2 (fadd rnd) (tensor_div rnd predicted (temperature self)) (prediction_mask self))"
  by (simp add: masked_scores_def tensor_add_def tensor_div_def)

text \<open>
  Claim C4, as amended. \<open>One_Step.__init__\<close> does not look at the temperature: for every
  temperature, positive or not, and every vocabulary, it succeeds, stores the temperature
  unchanged and builds the mask. Nor does the step: whatever the temperature, scores of the
  mask's length are scaled and masked without error. So a run with a temperature above
  zero is accepted, and so is every other run: no configuration error exists.
\<close>

theorem temperature_never_validated:
  "One_Step vocab temp =
     Inr \<lparr>temperature = temp,
          prediction_mask = (replicate (length (get_vocabulary vocab)) (Fin 0))
                              [char_to_ids vocab UNK := NInf]\<rparr> \<and>
   word_One_Step terms temp =
     Inr \<lparr>temperature = temp,
          prediction_mask = (replicate (vocabulary_size terms) (Fin 0))[1 := NInf]\<rparr> \<and>
   (\<forall>rnd self predicted.
      length predicted = length (prediction_mask self) \<longrightarrow>
      (\<exists>logits. masked_scores rnd self predicted = Inr logits \<and>
         length logits = length predicted))"
  by (simp add: One_Step_eq word_One_Step_eq masked_scores_same_length tensor_div_def)

theorem temperature_never_validated_witness:
  "One_Step [[97], [98]] (Fin (1 / 2)) =
     Inr \<lparr>temperature = Fin (1 / 2), prediction_mask = [NInf, Fin 0, Fin 0]\<rparr> \<and>
   word_One_Step [[97], [98]] NInf =
     Inr \<lparr>temperature = NInf, prediction_mask = [Fin 0, NInf, Fin 0, Fin 0]\<rparr> \<and>
   (\<exists>logits. masked_scores Fin \<lparr>temperature = Fin (- 1), prediction_mask = [NInf, Fin 0]\<rparr>
      [Fin 1, Fin 2] = Inr logits \<and> length logits = 2)"
proof -
  note a = temperature_never_validated[of "[[97], [98]]" "Fin (1 / 2)"]
  note b = temperature_never_validated[of _ NInf "[[97], [98]]"]
  from a have 1: "One_Step [[97], [98]] (Fin (1 / 2)) =
     Inr \<lparr>temperature = Fin (1 / 2), prediction_mask = [NInf, Fin 0, Fin 0]\<rparr>"
    by (simp add: get_vocabulary_def char_to_ids_def UNK_def py_str_def)
  from b have 2: "word_One_Step [[97], [98]] NInf =
     Inr \<lparr>temperature = NInf, prediction_mask = [Fin 0, NInf, Fin 0, Fin 0]\<rparr>"
    by (simp add: vocabulary_size_def word_get_vocabulary_def)
  have "length [Fin 1, Fin 2] =
      length (prediction_mask \<lparr>temperature = Fin (- 1), prediction_mask = [NInf, Fin 0]\<rparr>)"
    by simp
  with a[THEN conjunct2, THEN conjunct2, rule_format, where rnd = Fin
      and self = "\<lparr>temperature = Fin (- 1), prediction_mask = [NInf, Fin 0]\<rparr>"
      and predicted = "[Fin 1, Fin 2]"]
  have 3: "\<exists>logits. masked_scores Fin \<lparr>temperature = Fin (- 1), prediction_mask = [NInf, Fin 0]\<rparr>
      [Fin 1, Fin 2] = Inr logits \<and> length logits = 2"
    by (auto simp: numeral_2_eq_2)
  from 1 2 3 show ?thesis
    by (intro conjI)
qed

text \<open>
  Claim C4 as stated fails: with the temperatures \<open>0.0\<close> and \<open>-1.0\<close> the sampler is
  built like with any other.
\<close>

theorem nonpositive_temperature_accepted:
  "One_Step (vocabulary (py_str ''aab'')) (Fin 0) =
     Inr \<lparr>temperature = Fin 0, prediction_mask = [NInf, Fin 0, Fin 0]\<rparr> \<and>
   One_Step (vocabulary (py_str ''aab'')) (Fin (- 1)) =
     Inr \<lparr>temperature = Fin (- 1), prediction_mask = [NInf, Fin 0, Fin 0]\<rparr> \<and>
   word_One_Step [py_str ''a''] (Fin 0) =
     Inr \<lparr>temperature = Fin 0, prediction_mask = [Fin 0, NInf, Fin 0]\<rparr>"
  by (simp add: One_Step_def word_One_Step_def vocabulary_def py_list_def py_str_def
      sparse_to_dense_def get_vocabulary_def char_to_ids_def UNK_def vocabulary_size_def
      word_get_vocabulary_def)

lemma fadd_zero: "fadd rnd x (Fin 0) = x"
  by (cases x) simp_all

lemma fadd_NInf: "fadd rnd x NInf = NInf \<or> fadd rnd x NInf = NaN"
  by (cases x) simp_all

text \<open>The masked scores under a mask that is \<open>-inf\<close> at \<open>u\<close> and zero elsewhere.\<close>

lemma masked_scores_single:
  assumes mask: "prediction_mask self = (replicate n (Fin 0))[u := NInf]"
    and len: "length predicted = n"
  shows "masked_scores rnd self predicted =
           Inr (map2 (fadd rnd) (tensor_div rnd predicted (temperature self))
                  ((replicate n (Fin 0))[u := NInf]))"
  using assms by (simp add: masked_scores_def tensor_add_def tensor_div_def)

lemma masked_scores_nth:
  assumes mask: "prediction_mask self = (replicate n (Fin 0))[u := NInf]"
    and len: "length predicted = n"
    and res: "masked_scores rnd self predicted = Inr logits"
  shows "length logits = n"
    and "u < n \<Longrightarrow> logits ! u = fadd rnd (fdiv rnd (predicted ! u) (temperature self)) NInf"
    and "i < n \<Longrightarrow> i \<noteq> u \<Longrightarrow> logits ! i = fdiv rnd (predicted ! i) (temperature self)"
proof -
  from res masked_scores_single[OF mask len, of rnd]
  have l: "logits = map2 (fadd rnd) (tensor_div rnd predicted (temperature self))
                  ((replicate n (Fin 0))[u := NInf])"
    by simp
  show "length logits = n"
    by (simp add: l len tensor_div_def)
  show "logits ! u = fadd rnd (fdiv rnd (predicted ! u) (temperature self)) NInf" if "u < n"
    using that by (simp add: l len tensor_div_def)
  show "logits ! i = fdiv rnd (predicted ! i) (temperature self)" if "i < n" "i \<noteq> u"
    using that by (simp add: l len tensor_div_def fadd_zero)
qed






subsection \<open>The draw\<close>


lemma cdf_from_ge: "c \<in> set (cdf_from m t ls) \<Longrightarrow> t \<le> c"
proof (induction m t ls rule: cdf_from.induct)
  case (2 m t x ls)
  have p: "0 < exp (x - m)" by simp
  from "2.prems" consider "c = t + exp (x - m)" | "c \<in> set (cdf_from m (t + exp (x - m)) ls)"
    by auto
  then show ?case
  proof cases
    case 1
    then show ?thesis using p by linarith
  next
    case 2
    then have "t + exp (x - m) \<le> c" by (rule "2.IH")
    then show ?thesis using p by linarith
  qed
qed auto

lemma upper_bound_cdf_finite:
  "t \<le> v \<Longrightarrow> upper_bound (cdf_from m t ls) v < length ls \<Longrightarrow>
   \<exists>x. ls ! upper_bound (cdf_from m t ls) v = Fin x"
proof (induction m t ls rule: cdf_from.induct)
  case (2 m t x ls)
  then show ?case by (auto split: if_splits)
qed (auto split: if_splits)



lemma cdf_from_none_finite:
  "\<forall>x. Fin x \<notin> set ls \<Longrightarrow> cdf_from m t ls = replicate (length ls) t"
  by (induction m t ls rule: cdf_from.induct) auto

lemma upper_bound_replicate: "upper_bound (replicate n t) t = n"
  by (induction n) simp_all

lemma categorical_finite:
  assumes "0 \<le> u" "categorical u logits < length logits"
  shows "\<exists>x. logits ! categorical u logits = Fin x"
proof -
  define cdf where "cdf = cdf_from (max_logit lowest logits) 0 logits"
  define total where "total = (if cdf = [] then 0 else last cdf)"
  have "0 \<le> total"
    unfolding total_def using cdf_from_ge[of "last cdf" "max_logit lowest logits" 0 logits]
    by (auto simp: cdf_def)
  then have "0 \<le> u * total" using assms(1) by simp
  moreover have c: "categorical u logits = upper_bound cdf (u * total)"
    by (simp add: categorical_def Let_def cdf_def total_def)
  ultimately show ?thesis
    using upper_bound_cdf_finite[of 0 "u * total" "max_logit lowest logits" logits] assms(2)
    by (simp add: cdf_def)
qed


lemma categorical_none_finite:
  assumes "\<forall>x. Fin x \<notin> set logits"
  shows "categorical u logits = length logits"
proof (cases "logits = []")
  case True
  then show ?thesis by (simp add: categorical_def)
next
  case False
  then show ?thesis
    using cdf_from_none_finite[OF assms, of "max_logit lowest logits" 0]
    by (simp add: categorical_def Let_def upper_bound_replicate)
qed


lemma categorical_not_masked:
  assumes "0 \<le> u" "k < length logits" "logits ! k = NInf \<or> logits ! k = NaN"
  shows "categorical u logits \<noteq> k"
proof
  assume c: "categorical u logits = k"
  with assms(2) have "categorical u logits < length logits" by simp
  from categorical_finite[OF assms(1) this] c assms(3) show False by auto
qed

lemma masked_draw:
  assumes mask: "prediction_mask self = (replicate n (Fin 0))[k := NInf]"
    and len: "length predicted = n" and k: "k < n"
  shows "\<exists>logits. masked_scores rnd self predicted = Inr logits \<and> length logits = n \<and>
     logits ! k = fadd rnd (fdiv rnd (predicted ! k) (temperature self)) NInf \<and>
     (logits ! k = NInf \<or> logits ! k = NaN) \<and>
     (\<forall>i < n. i \<noteq> k \<longrightarrow> logits ! i = fdiv rnd (predicted ! i) (temperature self)) \<and>
     (\<forall>u. 0 \<le> u \<longrightarrow> categorical u logits \<noteq> k)"
proof -
  from masked_scores_single[OF mask len, of rnd] obtain logits
    where l: "masked_scores rnd self predicted = Inr logits"
    by blast
  note n = masked_scores_nth[OF mask len l]
  have 1: "logits ! k = fadd rnd (fdiv rnd (predicted ! k) (temperature self)) NInf"
    by (rule n(2)[OF k])
  have 2: "logits ! k = NInf \<or> logits ! k = NaN"
    unfolding 1 by (rule fadd_NInf)
  have 3: "\<forall>i < n. i \<noteq> k \<longrightarrow> logits ! i = fdiv rnd (predicted ! i) (temperature self)"
    using n(3) by blast
  have 4: "\<forall>u. 0 \<le> u \<longrightarrow> categorical u logits \<noteq> k"
    using categorical_not_masked[of _ k logits] k n(1) 2 by blast
  from l n(1) 1 2 3 4 show ?thesis
    by blast
qed



text \<open>
  When no masked score is finite the kernel's running sums are all zero and it returns
  the number of scores, an id of no token. The temperature \<open>0.0\<close> with scores above zero
  is such a case; the character-level \<open>ids_to_char\<close> decodes that id to \<open>'[UNK]'\<close>.
\<close>

lemma no_finite_score_draws_past_the_end:
  "masked_scores binary32 \<lparr>temperature = Fin 0, prediction_mask = [NInf, Fin 0, Fin 0]\<rparr>
     [Fin 1, Fin 1, Fin 1] = Inr [NaN, PInf, PInf] \<and>
   categorical u [NaN, PInf, PInf] = 3 \<and>
   ids_to_char [py_str ''a'', py_str ''b''] 3 = UNK"
  by (simp add: masked_scores_def tensor_div_def tensor_add_def categorical_def ids_to_char_def)





subsection \<open>Rounding to binary32\<close>

lemma rne_of_int: "rne (of_int n) = n"
  by (simp add: rne_def)

lemma rne_mono: "q \<le> q' \<Longrightarrow> rne q \<le> rne q'"
proof -
  assume le: "q \<le> q'"
  have lo: "\<lfloor>x\<rfloor> \<le> rne x" and hi: "rne x \<le> \<lfloor>x\<rfloor> + 1" for x
    by (simp_all add: rne_def Let_def)
  from le have fl: "\<lfloor>q\<rfloor> \<le> \<lfloor>q'\<rfloor>" by (rule floor_mono)
  show ?thesis
  proof (cases "\<lfloor>q\<rfloor> = \<lfloor>q'\<rfloor>")
    case True
    with le show ?thesis
      by (auto simp: rne_def Let_def)
  next
    case False
    with fl have "\<lfloor>q\<rfloor> + 1 \<le> \<lfloor>q'\<rfloor>" by simp
    with hi[of q] lo[of q'] show ?thesis by linarith
  qed
qed

lemma rne_neg: "rne (- q) = - rne q"
proof (cases "q \<in> \<int>")
  case True
  then obtain n where "q = of_int n" by (auto elim: Ints_cases)
  then show ?thesis
    using rne_of_int[of "- n"] rne_of_int[of n] by simp
next
  case False
  then have "q \<noteq> of_int \<lfloor>q\<rfloor>"
    by (metis Ints_of_int)
  then have f: "\<lfloor>- q\<rfloor> = - \<lfloor>q\<rfloor> - 1"
    by (simp add: floor_minus ceiling_altdef)
  have d: "- q - of_int (- \<lfloor>q\<rfloor> - 1) = 1 - (q - of_int \<lfloor>q\<rfloor>)"
    by simp
  show ?thesis
    unfolding rne_def Let_def f d
    by auto
qed


lemma pow2_pos: "0 < pow2 e"
  by (simp add: pow2_def)

lemma pow2_add: "pow2 (a + b) = pow2 a * pow2 b"
  by (simp add: pow2_def powr_add)

lemma pow2_mono: "a \<le> b \<Longrightarrow> pow2 a \<le> pow2 b"
  by (simp add: pow2_def)

lemma pow2_nat: "pow2 (int n) = 2 ^ n"
  by (simp add: pow2_def powr_realpow)

lemma pow2_of_int: "pow2 (int n) = of_int (2 ^ n)"
  by (simp add: pow2_nat)

lemma ulp_exp_neg: "ulp_exp (- x) = ulp_exp x"
  by (simp add: ulp_exp_def)

lemma round_to_grid_neg: "round_to_grid (- x) = - round_to_grid x"
  by (simp add: round_to_grid_def ulp_exp_neg rne_neg)

lemma ulp_exp_ge: "- 149 \<le> ulp_exp x"
proof (cases "\<bar>x\<bar> < pow2 (- 126)")
  case True
  then show ?thesis by (simp add: ulp_exp_def)
next
  case False
  then have "pow2 (- 126) \<le> \<bar>x\<bar>" by simp
  then have "log 2 (pow2 (- 126)) \<le> log 2 \<bar>x\<bar>"
    using pow2_pos[of "- 126"] by (simp add: log_le_cancel_iff)
  then have "- 126 \<le> log 2 \<bar>x\<bar>"
    by (simp add: pow2_def)
  then have "- 126 \<le> \<lfloor>log 2 \<bar>x\<bar>\<rfloor>"
    by (simp add: le_floor_iff)
  moreover from False have "ulp_exp x = \<lfloor>log 2 \<bar>x\<bar>\<rfloor> - 23"
    by (simp add: ulp_exp_def)
  ultimately show ?thesis by linarith
qed

lemma ulp_exp_upper:
  assumes "0 \<le> x"
  shows "x < pow2 (ulp_exp x + 24)"
proof (cases "x < pow2 (- 126)")
  case True
  have "pow2 (- 126) \<le> pow2 (- 125)" by (rule pow2_mono) simp
  with True assms show ?thesis by (simp add: ulp_exp_def)
next
  case False
  then have pos: "0 < x" using pow2_pos[of "- 126"] by linarith
  have "log 2 x < of_int (\<lfloor>log 2 x\<rfloor> + 1)"
    by linarith
  then have "2 powr log 2 x < 2 powr of_int (\<lfloor>log 2 x\<rfloor> + 1)"
    by simp
  with pos have "x < pow2 (\<lfloor>log 2 x\<rfloor> + 1)"
    by (simp add: pow2_def)
  moreover have "ulp_exp x + 24 = \<lfloor>log 2 x\<rfloor> + 1"
    using False assms by (simp add: ulp_exp_def)
  ultimately show ?thesis by (simp only:)
qed

lemma ulp_exp_lower:
  assumes "0 \<le> x" and "- 149 < ulp_exp x"
  shows "pow2 (ulp_exp x + 23) \<le> x"
proof -
  from assms have nf: "\<not> x < pow2 (- 126)"
    by (auto simp: ulp_exp_def)
  then have pos: "0 < x" using pow2_pos[of "- 126"] by linarith
  have "of_int \<lfloor>log 2 x\<rfloor> \<le> log 2 x" by simp
  then have "2 powr of_int \<lfloor>log 2 x\<rfloor> \<le> 2 powr log 2 x"
    by simp
  with pos have "pow2 \<lfloor>log 2 x\<rfloor> \<le> x"
    by (simp add: pow2_def)
  moreover have "ulp_exp x + 23 = \<lfloor>log 2 x\<rfloor>"
    using nf assms by (simp add: ulp_exp_def)
  ultimately show ?thesis by (simp only:)
qed

lemma ulp_exp_mono:
  assumes "0 \<le> x" and "x \<le> x'"
  shows "ulp_exp x \<le> ulp_exp x'"
proof (cases "x < pow2 (- 126)")
  case True
  with assms show ?thesis using ulp_exp_ge[of x'] by (simp add: ulp_exp_def)
next
  case False
  then have pos: "0 < x" using pow2_pos[of "- 126"] by linarith
  with assms have "log 2 x \<le> log 2 x'"
    by (simp add: log_le_cancel_iff)
  then have "\<lfloor>log 2 x\<rfloor> \<le> \<lfloor>log 2 x'\<rfloor>"
    by (rule floor_mono)
  with False assms show ?thesis by (simp add: ulp_exp_def)
qed

lemma round_to_grid_mono_nonneg:
  assumes x: "0 \<le> x" and le: "x \<le> x'"
  shows "round_to_grid x \<le> round_to_grid x'"
proof -
  let ?e = "ulp_exp x" and ?e' = "ulp_exp x'"
  from x le have x': "0 \<le> x'" by simp
  have ee: "?e \<le> ?e'" by (rule ulp_exp_mono[OF x le])
  show ?thesis
  proof (cases "?e = ?e'")
    case True
    from le have "x / pow2 ?e \<le> x' / pow2 ?e"
      using pow2_pos[of ?e] by (simp add: divide_right_mono)
    then have "rne (x / pow2 ?e) \<le> rne (x' / pow2 ?e)"
      by (rule rne_mono)
    then have "of_int (rne (x / pow2 ?e)) * pow2 ?e \<le> of_int (rne (x' / pow2 ?e)) * pow2 ?e"
      using pow2_pos[of ?e] by (simp add: mult_right_mono)
    with True show ?thesis by (simp add: round_to_grid_def)
  next
    case False
    with ee have lt: "?e + 24 \<le> ?e' + 23" by simp
    from False ee ulp_exp_ge[of x] have e': "- 149 < ?e'" by linarith
    have "x / pow2 ?e \<le> pow2 24"
    proof -
      have "x \<le> pow2 (?e + 24)" using ulp_exp_upper[OF x] by simp
      then have "x \<le> pow2 24 * pow2 ?e" by (simp add: pow2_add mult.commute)
      then show ?thesis using pow2_pos[of ?e] by (simp add: pos_divide_le_eq)
    qed
    then have "x / pow2 ?e \<le> of_int (2 ^ 24)"
      using pow2_of_int[of 24] by simp
    then have "rne (x / pow2 ?e) \<le> rne (of_int (2 ^ 24))"
      by (rule rne_mono)
    then have "of_int (rne (x / pow2 ?e)) \<le> pow2 24"
      using pow2_of_int[of 24] by (simp only: rne_of_int) simp
    then have "of_int (rne (x / pow2 ?e)) * pow2 ?e \<le> pow2 24 * pow2 ?e"
      using pow2_pos[of ?e] by (simp add: mult_right_mono)
    then have a: "round_to_grid x \<le> pow2 (?e + 24)"
      by (simp add: round_to_grid_def pow2_add mult.commute)
    have "pow2 23 \<le> x' / pow2 ?e'"
    proof -
      have "pow2 (?e' + 23) \<le> x'" by (rule ulp_exp_lower[OF x' e'])
      then have "pow2 23 * pow2 ?e' \<le> x'" by (simp add: pow2_add mult.commute)
      then show ?thesis using pow2_pos[of ?e'] by (simp add: pos_le_divide_eq)
    qed
    then have "of_int (2 ^ 23) \<le> x' / pow2 ?e'"
      using pow2_of_int[of 23] by simp
    then have "rne (of_int (2 ^ 23)) \<le> rne (x' / pow2 ?e')"
      by (rule rne_mono)
    then have "pow2 23 \<le> of_int (rne (x' / pow2 ?e'))"
      using pow2_of_int[of 23] by (simp only: rne_of_int) simp
    then have "pow2 23 * pow2 ?e' \<le> of_int (rne (x' / pow2 ?e')) * pow2 ?e'"
      using pow2_pos[of ?e'] by (simp add: mult_right_mono)
    then have b: "pow2 (?e' + 23) \<le> round_to_grid x'"
      by (simp add: round_to_grid_def pow2_add mult.commute)
    from lt have "pow2 (?e + 24) \<le> pow2 (?e' + 23)" by (rule pow2_mono)
    with a b show ?thesis by linarith
  qed
qed

lemma round_to_grid_zero: "round_to_grid 0 = 0"
  using rne_of_int[of 0] by (simp add: round_to_grid_def)

lemma round_to_grid_mono: "x \<le> x' \<Longrightarrow> round_to_grid x \<le> round_to_grid x'"
proof -
  assume le: "x \<le> x'"
  consider "0 \<le> x" | "x' \<le> 0" | "x < 0" "0 < x'" by linarith
  then show ?thesis
  proof cases
    case 1
    then show ?thesis using le by (rule round_to_grid_mono_nonneg)
  next
    case 2
    with le have "0 \<le> - x'" "- x' \<le> - x" by simp_all
    then have "round_to_grid (- x') \<le> round_to_grid (- x)"
      by (rule round_to_grid_mono_nonneg)
    then show ?thesis by (simp add: round_to_grid_neg)
  next
    case 3
    then have "0 \<le> - x" "0 \<le> (0::real)" "(0::real) \<le> x'" by simp_all
    then have "round_to_grid 0 \<le> round_to_grid (- x)" "round_to_grid 0 \<le> round_to_grid x'"
      by (auto intro: round_to_grid_mono_nonneg)
    then show ?thesis by (simp add: round_to_grid_neg round_to_grid_zero)
  qed
qed

lemma binary32_mono: "x \<le> x' \<Longrightarrow> fle (binary32 x) (binary32 x')"
  using round_to_grid_mono[of x x'] pow2_pos[of 128]
  by (auto simp: binary32_def Let_def abs_if split: if_splits)

lemma round_to_grid_pow2:
  assumes "- 126 \<le> n"
  shows "round_to_grid (pow2 n) = pow2 n"
proof -
  have "\<not> \<bar>pow2 n\<bar> < pow2 (- 126)"
    using pow2_mono[OF assms] pow2_pos[of n] by simp
  moreover have "log 2 \<bar>pow2 n\<bar> = of_int n"
    by (simp add: pow2_def)
  ultimately have e: "ulp_exp (pow2 n) = n - 23"
    by (simp add: ulp_exp_def)
  have split: "pow2 n = of_int (2 ^ 23) * pow2 (n - 23)"
    using pow2_add[of 23 "n - 23"] pow2_of_int[of 23] by simp
  then have "pow2 n / pow2 (n - 23) = of_int (2 ^ 23)"
    using pow2_pos[of "n - 23"] by simp
  then have "rne (pow2 n / pow2 (n - 23)) = 2 ^ 23"
    by (simp only: rne_of_int)
  then have "round_to_grid (pow2 n) = of_int (2 ^ 23) * pow2 (n - 23)"
    by (simp only: round_to_grid_def e)
  with split show ?thesis by simp
qed

lemma binary32_overflow: "2 ^ 128 \<le> x \<Longrightarrow> binary32 x = PInf"
proof -
  assume "2 ^ 128 \<le> x"
  then have "pow2 128 \<le> x" using pow2_nat[of 128] by simp
  then have "round_to_grid (pow2 128) \<le> round_to_grid x"
    by (rule round_to_grid_mono)
  then have "pow2 128 \<le> round_to_grid x"
    by (simp add: round_to_grid_pow2)
  then show ?thesis
    using pow2_pos[of 128] by (simp add: binary32_def Let_def)
qed

lemma rne_near:
  assumes "\<bar>q - of_int n\<bar> < 1 / 2"
  shows "rne q = n"
proof (cases "of_int n \<le> q")
  case True
  with assms have f: "\<lfloor>q\<rfloor> = n"
    by (simp add: floor_eq_iff abs_if split: if_splits)
  from True assms have "q - of_int n < 1 / 2"
    by simp
  then show ?thesis
    by (simp add: rne_def Let_def f)
next
  case False
  with assms have f: "\<lfloor>q\<rfloor> = n - 1"
    by (simp add: floor_eq_iff abs_if split: if_splits)
  from False assms have "1 / 2 < q - of_int (n - 1)"
    by (simp add: abs_if split: if_splits)
  then show ?thesis
    by (simp add: rne_def Let_def f)
qed

lemma ulp_exp_binade:
  assumes lo: "pow2 e \<le> \<bar>x\<bar>" and hi: "\<bar>x\<bar> < pow2 (e + 1)" and e: "- 126 \<le> e"
  shows "ulp_exp x = e - 23"
proof -
  from pow2_mono[OF e] lo have n: "\<not> \<bar>x\<bar> < pow2 (- 126)"
    by linarith
  from lo pow2_pos[of e] have pos: "0 < \<bar>x\<bar>"
    by linarith
  from lo pos have "of_int e \<le> log 2 \<bar>x\<bar>"
    by (simp add: le_log_iff pow2_def)
  moreover from hi pos have "log 2 \<bar>x\<bar> < of_int e + 1"
    by (simp add: log_less_iff pow2_def)
  ultimately have "\<lfloor>log 2 \<bar>x\<bar>\<rfloor> = e"
    by (simp add: floor_eq_iff)
  with n show ?thesis
    by (simp add: ulp_exp_def)
qed

lemma binary32_value:
  assumes lo: "pow2 e \<le> \<bar>x\<bar>" and hi: "\<bar>x\<bar> < pow2 (e + 1)" and e: "- 126 \<le> e"
    and near: "\<bar>x / pow2 (e - 23) - of_int n\<bar> < 1 / 2"
    and fin: "\<bar>of_int n * pow2 (e - 23)\<bar> < pow2 128"
  shows "binary32 x = Fin (of_int n * pow2 (e - 23))"
proof -
  have "round_to_grid x = of_int n * pow2 (e - 23)"
    by (simp add: round_to_grid_def ulp_exp_binade[OF lo hi e] rne_near[OF near])
  with fin show ?thesis
    by (simp add: binary32_def Let_def)
qed

lemma pow2_values: "pow2 1 = 2" "pow2 24 = 2 ^ 24" "pow2 25 = 2 ^ 25" "pow2 128 = 2 ^ 128"
  using pow2_nat[of 1] pow2_nat[of 24] pow2_nat[of 25] pow2_nat[of 128]
  by simp_all

lemma binary32_merge_a: "binary32 (25165826 / (3 / 2)) = Fin 16777218"
  using binary32_value[of 24 "25165826 / (3 / 2)" 8388609]
  by (simp add: pow2_values)

lemma binary32_merge_b: "binary32 (25165828 / (3 / 2)) = Fin 16777218"
  using binary32_value[of 24 "25165828 / (3 / 2)" 8388609]
  by (simp add: pow2_values)

lemma binary32_zero: "binary32 0 = Fin 0"
  using pow2_pos[of 128] by (simp add: binary32_def round_to_grid_zero)

lemma binary32_finite:
  assumes "\<bar>x\<bar> \<le> 2 ^ 127"
  shows "\<exists>y. binary32 x = Fin y"
proof -
  have p: "(2 :: real) ^ 127 = pow2 127"
    using pow2_nat[of 127] by (simp only: of_nat_numeral)
  have r: "round_to_grid (pow2 127) = pow2 127"
    by (rule round_to_grid_pow2) simp
  have "pow2 128 = pow2 127 * pow2 1"
    using pow2_add[of 127 1] by simp
  moreover have "pow2 1 = 2"
    using pow2_nat[of 1] by simp
  ultimately have q: "pow2 127 < pow2 128"
    using pow2_pos[of 127] by simp
  from assms have "\<bar>x\<bar> \<le> pow2 127"
    by (simp only: p)
  then have "x \<le> pow2 127" "- pow2 127 \<le> x"
    by linarith+
  then have "round_to_grid x \<le> round_to_grid (pow2 127)"
    "round_to_grid (- pow2 127) \<le> round_to_grid x"
    by (simp_all only: round_to_grid_mono)
  then have "\<bar>round_to_grid x\<bar> \<le> pow2 127"
    unfolding round_to_grid_neg r by linarith
  with q have "\<not> pow2 128 \<le> \<bar>round_to_grid x\<bar>"
    by linarith
  then show ?thesis
    by (simp add: binary32_def Let_def)
qed


subsection \<open>The order of the scaled and masked scores\<close>

lemma fle_not_fless: "fle a b \<Longrightarrow> \<not> fless b a"
  by (cases a; cases b) auto

lemma fle_not_NaN: "fle a b \<Longrightarrow> a \<noteq> NaN \<and> b \<noteq> NaN"
  by (cases a; cases b) auto

lemma fdiv_mono:
  assumes mono: "\<forall>x y. x \<le> y \<longrightarrow> fle (rnd x) (rnd y)" and t: "0 < t" and le: "x \<le> y"
  shows "fle (fdiv rnd (Fin x) (Fin t)) (fdiv rnd (Fin y) (Fin t))"
proof -
  from le t have "x / t \<le> y / t"
    by (simp add: divide_right_mono)
  with mono have "fle (rnd (x / t)) (rnd (y / t))"
    by blast
  with t show ?thesis
    by simp
qed

lemma masked_unknown_value:
  assumes mono: "\<forall>x y. x \<le> y \<longrightarrow> fle (rnd x) (rnd y)" and t: "0 < t"
  shows "fadd rnd (fdiv rnd (Fin x) (Fin t)) NInf =
           (if fdiv rnd (Fin x) (Fin t) = PInf then NaN else NInf)"
proof -
  from fdiv_mono[OF mono t order_refl, of x] have "fdiv rnd (Fin x) (Fin t) \<noteq> NaN"
    by (simp add: fle_not_NaN)
  then show ?thesis
    by (cases "fdiv rnd (Fin x) (Fin t)") simp_all
qed

lemma masked_order:
  fixes rnd :: "real \<Rightarrow> flt"
  assumes mono: "\<forall>x y. x \<le> y \<longrightarrow> fle (rnd x) (rnd y)"
    and mask: "prediction_mask self = (replicate n (Fin 0))[k := NInf]"
    and temp: "temperature self = Fin t" and t: "0 < t"
    and len: "length predicted = n" and k: "k < n"
    and fin: "\<forall>x \<in> set predicted. \<exists>r. x = Fin r"
  shows "\<exists>logits. masked_scores rnd self predicted = Inr logits \<and>
     length logits = length predicted \<and>
     (\<forall>i < length predicted. i \<noteq> k \<longrightarrow> logits ! i = fdiv rnd (predicted ! i) (Fin t)) \<and>
     (\<forall>i < length predicted. \<forall>j < length predicted.
         i \<noteq> k \<and> j \<noteq> k \<longrightarrow>
         (fle (predicted ! i) (predicted ! j) \<longrightarrow> fle (logits ! i) (logits ! j)) \<and>
         (fless (logits ! i) (logits ! j) \<longrightarrow> fless (predicted ! i) (predicted ! j))) \<and>
     logits ! k = (if fdiv rnd (predicted ! k) (Fin t) = PInf then NaN else NInf)"
proof -
  from masked_draw[OF mask len k, of rnd] obtain logits
    where a: "masked_scores rnd self predicted = Inr logits"
      and b: "length logits = n"
      and c: "logits ! k = fadd rnd (fdiv rnd (predicted ! k) (temperature self)) NInf"
      and e: "\<forall>i < n. i \<noteq> k \<longrightarrow> logits ! i = fdiv rnd (predicted ! i) (temperature self)"
    by (elim exE conjE) (rule that, assumption+)
  have f: "\<exists>r. predicted ! i = Fin r" if "i < n" for i
    using fin that len by (metis nth_mem)
  have 1: "length logits = length predicted"
    by (simp add: b len)
  have 2: "\<forall>i < length predicted. i \<noteq> k \<longrightarrow> logits ! i = fdiv rnd (predicted ! i) (Fin t)"
    using e by (simp add: len temp)
  have le: "fle (logits ! i) (logits ! j)"
    if "i < n" "j < n" "i \<noteq> k" "j \<noteq> k" "fle (predicted ! i) (predicted ! j)" for i j
  proof -
    from f[OF that(1)] f[OF that(2)] obtain x y
      where x: "predicted ! i = Fin x" and y: "predicted ! j = Fin y"
      by blast
    with that(5) have "x \<le> y"
      by simp
    from fdiv_mono[OF mono t this] e that(1-4) show ?thesis
      by (simp add: temp x y)
  qed
  have 3: "\<forall>i < length predicted. \<forall>j < length predicted.
         i \<noteq> k \<and> j \<noteq> k \<longrightarrow>
         (fle (predicted ! i) (predicted ! j) \<longrightarrow> fle (logits ! i) (logits ! j)) \<and>
         (fless (logits ! i) (logits ! j) \<longrightarrow> fless (predicted ! i) (predicted ! j))"
  proof (intro allI impI conjI; elim conjE)
    fix i j
    assume h: "i < length predicted" "j < length predicted" "i \<noteq> k" "j \<noteq> k"
    {
      assume "fle (predicted ! i) (predicted ! j)"
      with h show "fle (logits ! i) (logits ! j)"
        by (simp add: le len)
    }
    {
      assume l: "fless (logits ! i) (logits ! j)"
      from h f[of i] f[of j] obtain x y
        where x: "predicted ! i = Fin x" and y: "predicted ! j = Fin y"
        by (auto simp: len)
      show "fless (predicted ! i) (predicted ! j)"
      proof (rule ccontr)
        assume "\<not> fless (predicted ! i) (predicted ! j)"
        then have "fle (predicted ! j) (predicted ! i)"
          by (simp add: x y)
        with h have "fle (logits ! j) (logits ! i)"
          by (simp add: le len)
        with l show False
          by (simp add: fle_not_fless)
      qed
    }
  qed
  from f[OF k] obtain r where r: "predicted ! k = Fin r"
    by blast
  have 4: "logits ! k = (if fdiv rnd (predicted ! k) (Fin t) = PInf then NaN else NInf)"
    unfolding c temp r by (rule masked_unknown_value[OF mono t])
  from a 1 2 3 4 show ?thesis
    by (intro exI[of _ logits] conjI)
qed

lemma binary32_masked_order:
  assumes mask: "prediction_mask self = (replicate n (Fin 0))[K := NInf]"
    and temp: "temperature self = Fin t" and t: "0 < t"
    and len: "length predicted = n" and k: "K < n"
    and fin: "\<forall>x \<in> set predicted. \<exists>r. x = Fin r"
  shows "\<exists>logits. masked_scores binary32 self predicted = Inr logits \<and>
         length logits = length predicted \<and>
         (\<forall>i < length predicted.
             i \<noteq> K \<longrightarrow> logits ! i = fdiv binary32 (predicted ! i) (Fin t)) \<and>
         (\<forall>i < length predicted. \<forall>j < length predicted.
             i \<noteq> K \<and> j \<noteq> K \<longrightarrow>
             (fle (predicted ! i) (predicted ! j) \<longrightarrow> fle (logits ! i) (logits ! j)) \<and>
             (fless (logits ! i) (logits ! j) \<longrightarrow> fless (predicted ! i) (predicted ! j))) \<and>
         logits ! K = (if fdiv binary32 (predicted ! K) (Fin t) = PInf then NaN else NInf) \<and>
         (\<forall>r. predicted ! K = Fin r \<and> \<bar>r\<bar> \<le> t * 2 ^ 127 \<longrightarrow> logits ! K = NInf)"
proof -
  have mono: "\<forall>x y. x \<le> y \<longrightarrow> fle (binary32 x) (binary32 y)"
    by (simp add: binary32_mono)
  from masked_order[OF mono mask temp t len k fin] obtain logits
    where a: "masked_scores binary32 self predicted = Inr logits"
      and b: "length logits = length predicted"
      and c: "\<forall>i < length predicted. i \<noteq> K \<longrightarrow> logits ! i = fdiv binary32 (predicted ! i) (Fin t)"
      and d: "\<forall>i < length predicted. \<forall>j < length predicted.
             i \<noteq> K \<and> j \<noteq> K \<longrightarrow>
             (fle (predicted ! i) (predicted ! j) \<longrightarrow> fle (logits ! i) (logits ! j)) \<and>
             (fless (logits ! i) (logits ! j) \<longrightarrow> fless (predicted ! i) (predicted ! j))"
      and e: "logits ! K = (if fdiv binary32 (predicted ! K) (Fin t) = PInf then NaN else NInf)"
    by (elim exE conjE) (rule that, assumption+)
  have f: "\<forall>r. predicted ! K = Fin r \<and> \<bar>r\<bar> \<le> t * 2 ^ 127 \<longrightarrow> logits ! K = NInf"
  proof (intro allI impI, elim conjE)
    fix r assume r: "predicted ! K = Fin r" and le: "\<bar>r\<bar> \<le> t * 2 ^ 127"
    from le t have "\<bar>r / t\<bar> \<le> 2 ^ 127"
      by (simp add: pos_divide_le_eq mult.commute)
    from binary32_finite[OF this] t show "logits ! K = NInf"
      by (auto simp: e r)
  qed
  from a b c d e f show ?thesis
    by (intro exI[of _ logits] conjI)
qed

text \<open>
  Claim C9, as amended. Take a finite temperature above zero and finite scores, one per
  token of the vocabulary, in 32-bit floating point. Adding the mask leaves the scaled
  score of every token but \<open>'[UNK]'\<close> as the division gave it. Scaling never reverses
  the order of two such tokens: one that scores no more than another before still scores
  no more after, and one that scores less after scored less before; so a highest-scoring
  token stays a highest-scoring one, but rounding and overflow can make two different
  scores equal. The masked score of \<open>'[UNK]'\<close> is \<open>-inf\<close> unless its scaled score
  overflows to \<open>+inf\<close>, where it is not-a-number; it is \<open>-inf\<close> whenever the score is at
  most \<open>2 ^ 127\<close> times the temperature in magnitude. The vocabularies are ones the
  layers are built over.
\<close>

theorem scaling_and_masking_never_reverse_order:
  assumes built: "StringLookup vocab = Inr vocab" and adapted: "terms \<noteq> []"
  shows
  "(\<forall>t self predicted.
      One_Step vocab (Fin t) = Inr self \<and> 0 < t \<and>
      length predicted = length (get_vocabulary vocab) \<and>
      (\<forall>x \<in> set predicted. \<exists>r. x = Fin r) \<longrightarrow>
      (\<exists>logits. masked_scores binary32 self predicted = Inr logits \<and>
         length logits = length predicted \<and>
         (\<forall>i < length predicted.
             i \<noteq> 0 \<longrightarrow> logits ! i = fdiv binary32 (predicted ! i) (Fin t)) \<and>
         (\<forall>i < length predicted. \<forall>j < length predicted.
             i \<noteq> 0 \<and> j \<noteq> 0 \<longrightarrow>
             (fle (predicted ! i) (predicted ! j) \<longrightarrow> fle (logits ! i) (logits ! j)) \<and>
             (fless (logits ! i) (logits ! j) \<longrightarrow> fless (predicted ! i) (predicted ! j))) \<and>
         logits ! 0 = (if fdiv binary32 (predicted ! 0) (Fin t) = PInf then NaN else NInf) \<and>
         (\<forall>r. predicted ! 0 = Fin r \<and> \<bar>r\<bar> \<le> t * 2 ^ 127 \<longrightarrow> logits ! 0 = NInf))) \<and>
   (\<forall>t self predicted.
      word_One_Step terms (Fin t) = Inr self \<and> 0 < t \<and>
      length predicted = vocabulary_size terms \<and>
      (\<forall>x \<in> set predicted. \<exists>r. x = Fin r) \<longrightarrow>
      (\<exists>logits. masked_scores binary32 self predicted = Inr logits \<and>
         length logits = length predicted \<and>
         (\<forall>i < length predicted.
             i \<noteq> 1 \<longrightarrow> logits ! i = fdiv binary32 (predicted ! i) (Fin t)) \<and>
         (\<forall>i < length predicted. \<forall>j < length predicted.
             i \<noteq> 1 \<and> j \<noteq> 1 \<longrightarrow>
             (fle (predicted ! i) (predicted ! j) \<longrightarrow> fle (logits ! i) (logits ! j)) \<and>
             (fless (logits ! i) (logits ! j) \<longrightarrow> fless (predicted ! i) (predicted ! j))) \<and>
         logits ! 1 = (if fdiv binary32 (predicted ! 1) (Fin t) = PInf then NaN else NInf) \<and>
         (\<forall>r. predicted ! 1 = Fin r \<and> \<bar>r\<bar> \<le> t * 2 ^ 127 \<longrightarrow> logits ! 1 = NInf)))"
proof
  from built have unk: "char_to_ids vocab UNK = 0"
    by (simp add: StringLookup_built char_to_ids_absent)
  show "(\<forall>t self predicted.
      One_Step vocab (Fin t) = Inr self \<and> 0 < t \<and>
      length predicted = length (get_vocabulary vocab) \<and>
      (\<forall>x \<in> set predicted. \<exists>r. x = Fin r) \<longrightarrow>
      (\<exists>logits. masked_scores binary32 self predicted = Inr logits \<and>
         length logits = length predicted \<and>
         (\<forall>i < length predicted.
             i \<noteq> 0 \<longrightarrow> logits ! i = fdiv binary32 (predicted ! i) (Fin t)) \<and>
         (\<forall>i < length predicted. \<forall>j < length predicted.
             i \<noteq> 0 \<and> j \<noteq> 0 \<longrightarrow>
             (fle (predicted ! i) (predicted ! j) \<longrightarrow> fle (logits ! i) (logits ! j)) \<and>
             (fless (logits ! i) (logits ! j) \<longrightarrow> fless (predicted ! i) (predicted ! j))) \<and>
         logits ! 0 = (if fdiv binary32 (predicted ! 0) (Fin t) = PInf then NaN else NInf) \<and>
         (\<forall>r. predicted ! 0 = Fin r \<and> \<bar>r\<bar> \<le> t * 2 ^ 127 \<longrightarrow> logits ! 0 = NInf)))"
  proof (intro allI impI, elim conjE)
    fix t self and predicted :: "flt list"
    assume a: "One_Step vocab (Fin t) = Inr self" and t: "0 < t"
      and len: "length predicted = length (get_vocabulary vocab)"
      and fin: "\<forall>x \<in> set predicted. \<exists>r. x = Fin r"
    from a have mask: "prediction_mask self =
        (replicate (length (get_vocabulary vocab)) (Fin 0))[0 := NInf]"
      and temp: "temperature self = Fin t"
      by (auto simp: One_Step_eq unk)
    have k: "0 < length (get_vocabulary vocab)"
      by (simp add: get_vocabulary_def)
    show "\<exists>logits. masked_scores binary32 self predicted = Inr logits \<and>
         length logits = length predicted \<and>
         (\<forall>i < length predicted.
             i \<noteq> 0 \<longrightarrow> logits ! i = fdiv binary32 (predicted ! i) (Fin t)) \<and>
         (\<forall>i < length predicted. \<forall>j < length predicted.
             i \<noteq> 0 \<and> j \<noteq> 0 \<longrightarrow>
             (fle (predicted ! i) (predicted ! j) \<longrightarrow> fle (logits ! i) (logits ! j)) \<and>
             (fless (logits ! i) (logits ! j) \<longrightarrow> fless (predicted ! i) (predicted ! j))) \<and>
         logits ! 0 = (if fdiv binary32 (predicted ! 0) (Fin t) = PInf then NaN else NInf) \<and>
         (\<forall>r. predicted ! 0 = Fin r \<and> \<bar>r\<bar> \<le> t * 2 ^ 127 \<longrightarrow> logits ! 0 = NInf)"
      by (rule binary32_masked_order[OF mask temp t len k fin])
  qed
next
  show "(\<forall>t self predicted.
      word_One_Step terms (Fin t) = Inr self \<and> 0 < t \<and>
      length predicted = vocabulary_size terms \<and>
      (\<forall>x \<in> set predicted. \<exists>r. x = Fin r) \<longrightarrow>
      (\<exists>logits. masked_scores binary32 self predicted = Inr logits \<and>
         length logits = length predicted \<and>
         (\<forall>i < length predicted.
             i \<noteq> 1 \<longrightarrow> logits ! i = fdiv binary32 (predicted ! i) (Fin t)) \<and>
         (\<forall>i < length predicted. \<forall>j < length predicted.
             i \<noteq> 1 \<and> j \<noteq> 1 \<longrightarrow>
             (fle (predicted ! i) (predicted ! j) \<longrightarrow> fle (logits ! i) (logits ! j)) \<and>
             (fless (logits ! i) (logits ! j) \<longrightarrow> fless (predicted ! i) (predicted ! j))) \<and>
         logits ! 1 = (if fdiv binary32 (predicted ! 1) (Fin t) = PInf then NaN else NInf) \<and>
         (\<forall>r. predicted ! 1 = Fin r \<and> \<bar>r\<bar> \<le> t * 2 ^ 127 \<longrightarrow> logits ! 1 = NInf)))"
  proof (intro allI impI, elim conjE)
    fix t self and predicted :: "flt list"
    assume a: "word_One_Step terms (Fin t) = Inr self" and t: "0 < t"
      and len: "length predicted = vocabulary_size terms"
      and fin: "\<forall>x \<in> set predicted. \<exists>r. x = Fin r"
    from a have mask: "prediction_mask self =
        (replicate (vocabulary_size terms) (Fin 0))[1 := NInf]"
      and temp: "temperature self = Fin t"
      by (auto simp: word_One_Step_eq)
    have k: "1 < vocabulary_size terms"
      by (simp add: vocabulary_size_def word_get_vocabulary_def)
    show "\<exists>logits. masked_scores binary32 self predicted = Inr logits \<and>
         length logits = length predicted \<and>
         (\<forall>i < length predicted.
             i \<noteq> 1 \<longrightarrow> logits ! i = fdiv binary32 (predicted ! i) (Fin t)) \<and>
         (\<forall>i < length predicted. \<forall>j < length predicted.
             i \<noteq> 1 \<and> j \<noteq> 1 \<longrightarrow>
             (fle (predicted ! i) (predicted ! j) \<longrightarrow> fle (logits ! i) (logits ! j)) \<and>
             (fless (logits ! i) (logits ! j) \<longrightarrow> fless (predicted ! i) (predicted ! j))) \<and>
         logits ! 1 = (if fdiv binary32 (predicted ! 1) (Fin t) = PInf then NaN else NInf) \<and>
         (\<forall>r. predicted ! 1 = Fin r \<and> \<bar>r\<bar> \<le> t * 2 ^ 127 \<longrightarrow> logits ! 1 = NInf)"
      by (rule binary32_masked_order[OF mask temp t len k fin])
  qed
qed

theorem scaling_and_masking_never_reverse_order_witness:
  "(\<exists>logits. masked_scores binary32 \<lparr>temperature = Fin 2, prediction_mask = [NInf, Fin 0, Fin 0]\<rparr>
       [Fin 5, Fin 2, Fin 4] = Inr logits \<and>
       fle (logits ! 1) (logits ! 2) \<and> logits ! 0 = NInf) \<and>
   (\<exists>logits. masked_scores binary32
       \<lparr>temperature = Fin 2, prediction_mask = [Fin 0, NInf, Fin 0, Fin 0]\<rparr>
       [Fin 5, Fin 7, Fin 4, Fin 2] = Inr logits \<and>
       fle (logits ! 3) (logits ! 2) \<and> logits ! 1 = NInf)"
proof -
  let ?v = "[py_str ''a'', py_str ''b'']"
  let ?cs = "\<lparr>temperature = Fin 2, prediction_mask = [NInf, Fin 0, Fin 0]\<rparr>"
  let ?ws = "\<lparr>temperature = Fin 2, prediction_mask = [Fin 0, NInf, Fin 0, Fin 0]\<rparr>"
  have b: "StringLookup ?v = Inr ?v"
    by (simp add: StringLookup_def UNK_def py_str_def)
  have t: "?v \<noteq> []"
    by simp
  note th = scaling_and_masking_never_reverse_order[OF b t]
  note c = th[THEN conjunct1, rule_format, where t = 2 and self = ?cs
      and predicted = "[Fin 5, Fin 2, Fin 4]"]
  have "One_Step ?v (Fin 2) = Inr ?cs \<and> (0 :: real) < 2 \<and>
      length [Fin 5, Fin 2, Fin 4] = length (get_vocabulary ?v) \<and>
      (\<forall>x \<in> set [Fin 5, Fin 2, Fin 4]. \<exists>r. x = Fin r)"
    by (simp add: One_Step_eq get_vocabulary_def char_to_ids_def UNK_def py_str_def)
  from c[OF this] obtain logits
    where l: "masked_scores binary32 ?cs [Fin 5, Fin 2, Fin 4] = Inr logits"
      and o: "\<forall>i < length [Fin 5, Fin 2, Fin 4 :: flt]. \<forall>j < length [Fin 5, Fin 2, Fin 4 :: flt].
             i \<noteq> 0 \<and> j \<noteq> 0 \<longrightarrow>
             (fle ([Fin 5, Fin 2, Fin 4] ! i) ([Fin 5, Fin 2, Fin 4] ! j) \<longrightarrow>
                fle (logits ! i) (logits ! j)) \<and>
             (fless (logits ! i) (logits ! j) \<longrightarrow>
                fless ([Fin 5, Fin 2, Fin 4] ! i) ([Fin 5, Fin 2, Fin 4] ! j))"
      and u: "\<forall>r. [Fin 5, Fin 2, Fin 4] ! 0 = Fin r \<and> \<bar>r\<bar> \<le> 2 * 2 ^ 127 \<longrightarrow> logits ! 0 = NInf"
    by (elim exE conjE) (rule that, assumption+)
  from o[rule_format, of 1 2] have o': "fle (logits ! 1) (logits ! 2)"
    by simp
  from u[rule_format, of 5] have u': "logits ! 0 = NInf"
    by simp
  from l o' u' have 1: "\<exists>logits. masked_scores binary32 ?cs [Fin 5, Fin 2, Fin 4] = Inr logits \<and>
       fle (logits ! 1) (logits ! 2) \<and> logits ! 0 = NInf"
    by (intro exI[of _ logits] conjI)
  note w = th[THEN conjunct2, rule_format, where t = 2 and self = ?ws
      and predicted = "[Fin 5, Fin 7, Fin 4, Fin 2]"]
  have "word_One_Step ?v (Fin 2) = Inr ?ws \<and> (0 :: real) < 2 \<and>
      length [Fin 5, Fin 7, Fin 4, Fin 2] = vocabulary_size ?v \<and>
      (\<forall>x \<in> set [Fin 5, Fin 7, Fin 4, Fin 2]. \<exists>r. x = Fin r)"
    by (simp add: word_One_Step_eq vocabulary_size_def word_get_vocabulary_def)
  from w[OF this] obtain logits
    where l: "masked_scores binary32 ?ws [Fin 5, Fin 7, Fin 4, Fin 2] = Inr logits"
      and o: "\<forall>i < length [Fin 5, Fin 7, Fin 4, Fin 2 :: flt].
             \<forall>j < length [Fin 5, Fin 7, Fin 4, Fin 2 :: flt].
             i \<noteq> 1 \<and> j \<noteq> 1 \<longrightarrow>
             (fle ([Fin 5, Fin 7, Fin 4, Fin 2] ! i) ([Fin 5, Fin 7, Fin 4, Fin 2] ! j) \<longrightarrow>
                fle (logits ! i) (logits ! j)) \<and>
             (fless (logits ! i) (logits ! j) \<longrightarrow>
                fless ([Fin 5, Fin 7, Fin 4, Fin 2] ! i) ([Fin 5, Fin 7, Fin 4, Fin 2] ! j))"
      and u: "\<forall>r. [Fin 5, Fin 7, Fin 4, Fin 2] ! 1 = Fin r \<and> \<bar>r\<bar> \<le> 2 * 2 ^ 127 \<longrightarrow>
             logits ! 1 = NInf"
    by (elim exE conjE) (rule that, assumption+)
  from o[rule_format, of 3 2] have o': "fle (logits ! 3) (logits ! 2)"
    by simp
  from u[rule_format, of 7] have u': "logits ! 1 = NInf"
    by simp
  from l o' u' have 2: "\<exists>logits. masked_scores binary32 ?ws [Fin 5, Fin 7, Fin 4, Fin 2] = Inr logits \<and>
       fle (logits ! 3) (logits ! 2) \<and> logits ! 1 = NInf"
    by (intro exI[of _ logits] conjI)
  from 1 2 show ?thesis
    by (rule conjI)
qed

text \<open>
  Claim C9 as stated fails in three ways. At the temperature \<open>1.5\<close> the scores 25165826
  and 25165828, one below the other, both round to 16777218 after the division. At the
  temperature \<open>0.5\<close> the scores \<open>2 ^ 127\<close> and \<open>3 * 2 ^ 126\<close> both overflow to \<open>+inf\<close>, and
  the score \<open>2 ^ 127\<close> of \<open>'[UNK]'\<close> becomes not-a-number, not \<open>-inf\<close>. The temperature
  \<open>+inf\<close> is above zero and accepted, and the scores 1 and 2 are both 0 after the division.
\<close>

theorem float32_scaling_merges_scores:
  "One_Step [py_str ''a'', py_str ''b''] (Fin (3 / 2)) =
     Inr \<lparr>temperature = Fin (3 / 2), prediction_mask = [NInf, Fin 0, Fin 0]\<rparr> \<and>
   masked_scores binary32 \<lparr>temperature = Fin (3 / 2), prediction_mask = [NInf, Fin 0, Fin 0]\<rparr>
     [Fin 0, Fin 25165826, Fin 25165828] = Inr [NInf, Fin 16777218, Fin 16777218] \<and>
   fless (Fin 25165826) (Fin 25165828) \<and> \<not> fless (Fin 16777218) (Fin 16777218) \<and>
   One_Step [py_str ''a'', py_str ''b''] (Fin (1 / 2)) =
     Inr \<lparr>temperature = Fin (1 / 2), prediction_mask = [NInf, Fin 0, Fin 0]\<rparr> \<and>
   masked_scores binary32 \<lparr>temperature = Fin (1 / 2), prediction_mask = [NInf, Fin 0, Fin 0]\<rparr>
     [Fin (2 ^ 127), Fin (2 ^ 127), Fin (3 * 2 ^ 126)] = Inr [NaN, PInf, PInf] \<and>
   fless (Fin (2 ^ 127)) (Fin (3 * 2 ^ 126)) \<and> \<not> fless PInf PInf \<and>
   One_Step [py_str ''a'', py_str ''b''] PInf =
     Inr \<lparr>temperature = PInf, prediction_mask = [NInf, Fin 0, Fin 0]\<rparr> \<and>
   masked_scores binary32 \<lparr>temperature = PInf, prediction_mask = [NInf, Fin 0, Fin 0]\<rparr>
     [Fin 0, Fin 1, Fin 2] = Inr [NInf, Fin 0, Fin 0] \<and>
   fless (Fin 1) (Fin 2) \<and> \<not> fless (Fin 0) (Fin 0)"
proof -
  have a: "binary32 (2 ^ 127 / (1 / 2)) = PInf"
    by (rule binary32_overflow) simp
  have b: "binary32 (3 * 2 ^ 126 / (1 / 2)) = PInf"
    by (rule binary32_overflow) simp
  have 0: "masked_scores binary32 \<lparr>temperature = Fin (3 / 2), prediction_mask = [NInf, Fin 0, Fin 0]\<rparr>
     [Fin 0, Fin 25165826, Fin 25165828] = Inr [NInf, Fin 16777218, Fin 16777218]"
    using binary32_merge_a binary32_merge_b
    by (simp add: masked_scores_def tensor_div_def tensor_add_def binary32_zero)
  have 1: "masked_scores binary32 \<lparr>temperature = Fin (1 / 2), prediction_mask = [NInf, Fin 0, Fin 0]\<rparr>
     [Fin (2 ^ 127), Fin (2 ^ 127), Fin (3 * 2 ^ 126)] = Inr [NaN, PInf, PInf]"
    using a b by (simp add: masked_scores_def tensor_div_def tensor_add_def)
  have 2: "One_Step [py_str ''a'', py_str ''b''] (Fin (3 / 2)) =
     Inr \<lparr>temperature = Fin (3 / 2), prediction_mask = [NInf, Fin 0, Fin 0]\<rparr>"
    "One_Step [py_str ''a'', py_str ''b''] (Fin (1 / 2)) =
     Inr \<lparr>temperature = Fin (1 / 2), prediction_mask = [NInf, Fin 0, Fin 0]\<rparr>"
    "One_Step [py_str ''a'', py_str ''b''] PInf =
     Inr \<lparr>temperature = PInf, prediction_mask = [NInf, Fin 0, Fin 0]\<rparr>"
    by (simp_all add: One_Step_eq get_vocabulary_def char_to_ids_def UNK_def py_str_def)
  have 3: "masked_scores binary32 \<lparr>temperature = PInf, prediction_mask = [NInf, Fin 0, Fin 0]\<rparr>
     [Fin 0, Fin 1, Fin 2] = Inr [NInf, Fin 0, Fin 0]"
    by (simp add: masked_scores_def tensor_div_def tensor_add_def)
  have 4: "fless (Fin 25165826) (Fin 25165828)" "\<not> fless (Fin 16777218) (Fin 16777218)"
    "fless (Fin (2 ^ 127)) (Fin (3 * 2 ^ 126))" "\<not> fless PInf PInf"
    "fless (Fin 1) (Fin 2)" "\<not> fless (Fin 0) (Fin 0)"
    by simp_all
  from 0 1 2 3 4 show ?thesis
    by (intro conjI)
qed

end
